theory Spec2Isabelle
  imports Main
begin

section \<open>The date type of the standard library\<close>

text \<open>
  \<^verbatim>\<open>recurring_events.py\<close> computes with \<^verbatim>\<open>datetime.date\<close>, \<^verbatim>\<open>datetime.timedelta\<close> and
  \<^verbatim>\<open>calendar.monthrange\<close>. A date is a triple of year, month and day of the proleptic
  Gregorian calendar, years 1 to 9999. The library keeps no other state in a date; it
  converts to and from the ordinal (the number of days since 0001-01-01, which has
  ordinal 1) for arithmetic, and raises \<^verbatim>\<open>ValueError\<close> or \<^verbatim>\<open>OverflowError\<close> when a result
  would leave the range. The definitions below follow the library's algorithms
  (\<^verbatim>\<open>_ymd2ord\<close>, \<^verbatim>\<open>_ord2ymd\<close>, \<^verbatim>\<open>_check_date_fields\<close>). Only plain dates are modelled,
  not the subclass \<^verbatim>\<open>datetime.datetime\<close>.
\<close>

datatype error =
  ValueError | AssertionError | NotImplementedError | NameError | TypeError | OverflowError

datatype date = Date (year_of: int) (month_of: int) (day_of: int)

definition is_leap :: "int \<Rightarrow> bool" where
  "is_leap y \<longleftrightarrow> y mod 4 = 0 \<and> (y mod 100 \<noteq> 0 \<or> y mod 400 = 0)"

definition days_in_month :: "int \<Rightarrow> int \<Rightarrow> int" where
  "days_in_month y m =
     (if m = 2 then (if is_leap y then 29 else 28)
      else if m = 4 \<or> m = 6 \<or> m = 9 \<or> m = 11 then 30 else 31)"

definition days_before_year :: "int \<Rightarrow> int" where
  "days_before_year y = (y - 1) * 365 + (y - 1) div 4 - (y - 1) div 100 + (y - 1) div 400"

definition days_before_month_tab :: "int \<Rightarrow> int" where
  "days_before_month_tab m =
     (if m \<le> 1 then 0 else if m = 2 then 31 else if m = 3 then 59 else if m = 4 then 90
      else if m = 5 then 120 else if m = 6 then 151 else if m = 7 then 181
      else if m = 8 then 212 else if m = 9 then 243 else if m = 10 then 273
      else if m = 11 then 304 else 334)"

definition days_before_month :: "int \<Rightarrow> int \<Rightarrow> int" where
  "days_before_month y m = days_before_month_tab m + (if m > 2 \<and> is_leap y then 1 else 0)"

definition ymd2ord :: "int \<Rightarrow> int \<Rightarrow> int \<Rightarrow> int" where
  "ymd2ord y m d = days_before_year y + days_before_month y m + d"

definition MAXORDINAL :: int where
  "MAXORDINAL = 3652059"

definition valid_date :: "date \<Rightarrow> bool" where
  "valid_date x \<longleftrightarrow>
     1 \<le> year_of x \<and> year_of x \<le> 9999 \<and> 1 \<le> month_of x \<and> month_of x \<le> 12 \<and>
     1 \<le> day_of x \<and> day_of x \<le> days_in_month (year_of x) (month_of x)"

definition toordinal :: "date \<Rightarrow> int" where
  "toordinal x = ymd2ord (year_of x) (month_of x) (day_of x)"

text \<open>The month and day of the \<open>n\<close>-th day (counted from 0) of a year.\<close>

definition ord2md :: "bool \<Rightarrow> int \<Rightarrow> int \<times> int" where
  "ord2md leapyear n =
     (let month = (n + 50) div 32;
          preceding = days_before_month_tab month + (if month > 2 \<and> leapyear then 1 else 0)
      in if preceding > n
         then (let month' = month - 1;
                   preceding' = preceding -
                     ((if month' = 2 then 28
                       else if month' = 4 \<or> month' = 6 \<or> month' = 9 \<or> month' = 11 then 30
                       else 31)
                      + (if month' = 2 \<and> leapyear then 1 else 0))
               in (month', n - preceding' + 1))
         else (month, n - preceding + 1))"

definition fromordinal :: "int \<Rightarrow> date" where
  "fromordinal n =
     (let n0 = n - 1;
          n400 = n0 div 146097; r400 = n0 mod 146097;
          n100 = r400 div 36524; r100 = r400 mod 36524;
          n4 = r100 div 1461; r4 = r100 mod 1461;
          n1 = r4 div 365; r1 = r4 mod 365;
          y = n400 * 400 + 1 + n100 * 100 + n4 * 4 + n1
      in if n1 = 4 \<or> n100 = 4 then Date (y - 1) 12 31
         else (let leapyear = (n1 = 3 \<and> (n4 \<noteq> 24 \<or> n100 = 3));
                   md = ord2md leapyear r1
               in Date y (fst md) (snd md)))"

text \<open>\<^verbatim>\<open>date.weekday()\<close>: Monday is 0, Sunday is 6.\<close>

definition date_weekday :: "date \<Rightarrow> int" where
  "date_weekday x = (toordinal x + 6) mod 7"

text \<open>Dates compare as their (year, month, day) triples.\<close>

definition date_less :: "date \<Rightarrow> date \<Rightarrow> bool" where
  "date_less a b \<longleftrightarrow>
     year_of a < year_of b \<or>
     (year_of a = year_of b \<and>
       (month_of a < month_of b \<or> (month_of a = month_of b \<and> day_of a < day_of b)))"

definition date_le :: "date \<Rightarrow> date \<Rightarrow> bool" where
  "date_le a b \<longleftrightarrow> date_less a b \<or> a = b"

text \<open>
  \<^verbatim>\<open>d.replace(year=.., month=.., day=..)\<close>: a keyword that is not given keeps the field;
  the new triple is checked and \<^verbatim>\<open>ValueError\<close> raised when it is no date.
\<close>

definition date_replace :: "date \<Rightarrow> int option \<Rightarrow> int option \<Rightarrow> int option \<Rightarrow> error + date" where
  "date_replace x yo mo dayo =
     (let y = (case yo of None \<Rightarrow> year_of x | Some v \<Rightarrow> v);
          m = (case mo of None \<Rightarrow> month_of x | Some v \<Rightarrow> v);
          d = (case dayo of None \<Rightarrow> day_of x | Some v \<Rightarrow> v)
      in if valid_date (Date y m d) then Inr (Date y m d) else Inl ValueError)"

text \<open>
  \<^verbatim>\<open>d + timedelta(days=k)\<close> (and \<^verbatim>\<open>d - timedelta(days=k)\<close> as \<open>date_add d (- k)\<close>):
  \<^verbatim>\<open>OverflowError\<close> when the ordinal leaves 1..MAXORDINAL. A \<^verbatim>\<open>timedelta\<close> beyond its own
  limit of 999999999 days raises the same error when it is built.
\<close>

definition date_add :: "date \<Rightarrow> int \<Rightarrow> error + date" where
  "date_add x k =
     (let n = toordinal x + k
      in if 0 < n \<and> n \<le> MAXORDINAL then Inr (fromordinal n) else Inl OverflowError)"

text \<open>Python's \<^verbatim>\<open>a % 7\<close> has the sign of the divisor, as \<open>mod\<close> on \<open>int\<close> has.\<close>

section \<open>The date functions of the module\<close>

definition get_next_workday_by_interval :: "date \<Rightarrow> int \<Rightarrow> error + date" where
  "get_next_workday_by_interval cur_date interval =
     (case date_add cur_date interval of
        Inl e \<Rightarrow> Inl e
      | Inr cur_date' \<Rightarrow>
          if date_weekday cur_date' > 4 then date_add cur_date' 2 else Inr cur_date')"

definition get_next_weekday :: "date \<Rightarrow> int \<Rightarrow> error + date" where
  "get_next_weekday cur_date weekday =
     (let days_ahead = weekday - 1 - date_weekday cur_date
      in date_add cur_date days_ahead)"

function get_nth_weekday_of_month :: "date \<Rightarrow> int \<Rightarrow> int \<Rightarrow> error + date" where
  "get_nth_weekday_of_month cur_date ordinal weekday =
     (if weekday > 7 then Inl ValueError
      else if ordinal > 5 then Inl ValueError
      else if ordinal = 5 then
        (case (if month_of cur_date < 12
               then date_replace cur_date None (Some (month_of cur_date + 1)) (Some 1)
               else date_replace cur_date (Some (year_of cur_date + 1)) (Some 1) (Some 1)) of
           Inl e \<Rightarrow> Inl e
         | Inr next_month_date \<Rightarrow>
             (case get_nth_weekday_of_month next_month_date 1 weekday of
                Inl e \<Rightarrow> Inl e
              | Inr reference_date \<Rightarrow> date_add reference_date (- 7)))
      else
        (case date_replace cur_date None None (Some 1) of
           Inl e \<Rightarrow> Inl e
         | Inr reference_date \<Rightarrow>
             (let adj = (weekday - 1 - date_weekday reference_date) mod 7
              in case date_add reference_date adj of
                   Inl e \<Rightarrow> Inl e
                 | Inr reference_date' \<Rightarrow> date_add reference_date' (7 * (ordinal - 1)))))"
  by pat_completeness auto
termination
  by (relation "measure (\<lambda>(cur_date, ordinal, weekday). if ordinal = 5 then 1 else 0)") auto

declare get_nth_weekday_of_month.simps [simp del]

definition get_last_workday_of_month :: "date \<Rightarrow> error + date" where
  "get_last_workday_of_month cur_date =
     (let last_day_of_month = days_in_month (year_of cur_date) (month_of cur_date)
      in case date_replace cur_date None None (Some last_day_of_month) of
           Inl e \<Rightarrow> Inl e
         | Inr cur_date' \<Rightarrow>
             (let weekday = date_weekday cur_date'
              in if weekday = 5 \<or> weekday = 6
                 then date_add cur_date' (- (weekday - 4))
                 else Inr cur_date'))"

definition get_first_workday_of_month :: "date \<Rightarrow> error + date" where
  "get_first_workday_of_month cur_date =
     (case date_replace cur_date None None (Some 1) of
        Inl e \<Rightarrow> Inl e
      | Inr cur_date' \<Rightarrow>
          (let weekday = date_weekday cur_date'
           in if weekday = 5 \<or> weekday = 6
              then date_add cur_date' (7 - weekday)
              else Inr cur_date'))"

text \<open>
  The callers pass the rule's \<^verbatim>\<open>_ordinal\<close>, which may be \<^verbatim>\<open>None\<close>; then
  \<^verbatim>\<open>ordinal - 1\<close> raises \<^verbatim>\<open>TypeError\<close>, after the first workday has been computed.
\<close>

definition get_nth_workday_of_month :: "date \<Rightarrow> int option \<Rightarrow> error + date" where
  "get_nth_workday_of_month cur_date ordinal =
     (case get_first_workday_of_month cur_date of
        Inl e \<Rightarrow> Inl e
      | Inr first_workday \<Rightarrow>
          (case ordinal of
             None \<Rightarrow> Inl TypeError
           | Some ord \<Rightarrow>
               (case date_add first_workday (ord - 1) of
                  Inl e \<Rightarrow> Inl e
                | Inr nth_workday \<Rightarrow>
                    (let day_delta = (if date_weekday first_workday + ord - 1 > 4 then 2 else 0)
                     in date_add nth_workday day_delta))))"

section \<open>The class RecurringEvent\<close>

text \<open>
  The arguments of the constructor are Python objects: \<^verbatim>\<open>last_occurence\<close> and
  \<^verbatim>\<open>first_occurence\<close> are \<^verbatim>\<open>None\<close>, a date or something else; \<^verbatim>\<open>day\<close>, \<^verbatim>\<open>ordinal\<close> and
  \<^verbatim>\<open>weekday\<close> are \<^verbatim>\<open>None\<close> or an integer. An object exists only after
  \<^verbatim>\<open>_check_consistency\<close> has passed, so its \<^verbatim>\<open>_last_occurence\<close> is a date.
\<close>

datatype pyobj = PyNone | PyDate date | PyOther

record recurring_event =
  self_last_occurence :: date
  self_recurs :: int
  self_interval :: int
  self_day :: "int option"
  self_ordinal :: "int option"
  self_weekday :: "int option"
  self_interval_end :: "date option"

text \<open>The truth value of \<^verbatim>\<open>None\<close> or an integer: \<^verbatim>\<open>None\<close> and 0 are false.\<close>

definition truthy :: "int option \<Rightarrow> bool" where
  "truthy v = (case v of None \<Rightarrow> False | Some n \<Rightarrow> n \<noteq> 0)"

text \<open>\<^verbatim>\<open>x if x else None\<close>\<close>

definition or_none :: "int option \<Rightarrow> int option" where
  "or_none v = (if truthy v then v else None)"

text \<open>
  \<^verbatim>\<open>_check_consistency\<close>, on the fields the constructor has just assigned. A comparison
  reads the integer of a field only where the field is true, so \<open>the\<close> is applied to
  \<open>Some\<close> only.
\<close>

definition check_consistency ::
  "pyobj \<Rightarrow> int \<Rightarrow> int option \<Rightarrow> int option \<Rightarrow> int option \<Rightarrow> error + unit" where
  "check_consistency last_occurence recurs day ordinal weekday =
     (if \<not> (case last_occurence of PyDate _ \<Rightarrow> True | _ \<Rightarrow> False) then Inl ValueError
      else if truthy day \<and> (the day < 1 \<or> the day > 31) then Inl ValueError
      else if truthy ordinal \<and> (the ordinal < 1 \<or> the ordinal > 5) then Inl ValueError
      else if truthy day \<and> truthy ordinal then Inl AssertionError
      else if truthy day \<and> truthy weekday then Inl AssertionError
      else if weekday = Some 8 \<and> recurs \<noteq> 4 then Inl AssertionError
      else if weekday = Some 8 \<and> \<not> truthy ordinal then Inl AssertionError
      else if recurs \<noteq> 4 \<and> truthy day then Inl AssertionError
      else if \<not> (recurs = 2 \<or> recurs = 4) \<and> truthy ordinal then Inl AssertionError
      else if \<not> (recurs = 3 \<or> recurs = 4) \<and> truthy weekday then Inl AssertionError
      else Inr ())"

definition RecurringEvent ::
  "pyobj \<Rightarrow> int \<Rightarrow> int \<Rightarrow> int option \<Rightarrow> int option \<Rightarrow> int option \<Rightarrow> pyobj
     \<Rightarrow> error + recurring_event" where
  "RecurringEvent last_occurence recurs interval day ordinal weekday first_occurence =
     (let lo = (if last_occurence \<noteq> PyNone then last_occurence else first_occurence);
          d = or_none day; ordn = or_none ordinal; w = or_none weekday
      in case check_consistency lo recurs d ordn w of
           Inl e \<Rightarrow> Inl e
         | Inr _ \<Rightarrow>
             (case lo of
                PyDate x \<Rightarrow>
                  Inr \<lparr>self_last_occurence = x, self_recurs = recurs, self_interval = interval,
                       self_day = d, self_ordinal = ordn, self_weekday = w,
                       self_interval_end = None\<rparr>
              | _ \<Rightarrow> Inl ValueError))"

text \<open>
  \<^verbatim>\<open>set_interval_end\<close>: the module imports \<^verbatim>\<open>timedelta\<close> and \<^verbatim>\<open>date\<close> from \<^verbatim>\<open>datetime\<close>
  and the module \<^verbatim>\<open>calendar\<close>; the name \<^verbatim>\<open>datetime\<close> itself is bound nowhere, so the
  branch for \<^verbatim>\<open>None\<close> raises \<^verbatim>\<open>NameError\<close> when it evaluates \<^verbatim>\<open>datetime.now()\<close>.
  The horizon is a date here.
\<close>

definition set_interval_end :: "recurring_event \<Rightarrow> date option \<Rightarrow> error + recurring_event" where
  "set_interval_end self interval_end =
     (case interval_end of
        None \<Rightarrow> Inl NameError
      | Some e \<Rightarrow> Inr (self\<lparr>self_interval_end := Some e\<rparr>))"

text \<open>\<^verbatim>\<open>int(month / 13)\<close>: the quotient, rounded towards zero.\<close>

definition int_div13 :: "int \<Rightarrow> int" where
  "int_div13 month = (if 0 \<le> month then month div 13 else - ((- month) div 13))"

text \<open>
  The three monthly methods compute the target year and month by the same lines:
  \<^verbatim>\<open>month = starting_date.month + self._interval\<close>, \<^verbatim>\<open>year_incr = int(month / 13)\<close>, and
  then \<^verbatim>\<open>month - year_incr * 12\<close> and \<^verbatim>\<open>starting_date.year + year_incr\<close>. \<open>rollover\<close>
  names that pair; the methods below keep the lines as the source has them.
\<close>

definition rollover :: "int \<Rightarrow> int \<Rightarrow> int \<Rightarrow> int \<times> int" where
  "rollover year m i =
     (let month = m + i; year_incr = int_div13 month
      in (year + year_incr, month - year_incr * 12))"

definition get_daily_period :: "recurring_event \<Rightarrow> date \<Rightarrow> error + date" where
  "get_daily_period self starting_date = date_add starting_date (self_interval self)"

definition get_workdaily_period :: "recurring_event \<Rightarrow> date \<Rightarrow> error + date" where
  "get_workdaily_period self starting_date =
     (if truthy (self_ordinal self) then Inl NotImplementedError
      else get_next_workday_by_interval starting_date (self_interval self))"

definition get_ordinal_workday_period :: "recurring_event \<Rightarrow> date \<Rightarrow> error + date" where
  "get_ordinal_workday_period self starting_date =
     (let month = month_of starting_date + self_interval self;
          year_incr = int_div13 month
      in case date_replace starting_date (Some (year_of starting_date + year_incr))
                (Some (month - year_incr * 12)) (Some 1) of
           Inl e \<Rightarrow> Inl e
         | Inr starting_date' \<Rightarrow>
             if self_ordinal self = Some 5 then get_last_workday_of_month starting_date'
             else get_nth_workday_of_month starting_date' (self_ordinal self))"

text \<open>
  \<^verbatim>\<open>_get_weekday_period\<close> passes \<^verbatim>\<open>self._weekday\<close> on; were it \<^verbatim>\<open>None\<close>, the first
  comparison or subtraction with it would raise \<^verbatim>\<open>TypeError\<close>.
\<close>

definition get_weekday_period :: "recurring_event \<Rightarrow> date \<Rightarrow> error + date" where
  "get_weekday_period self starting_date =
     (if truthy (self_ordinal self) then
        (let month = month_of starting_date + self_interval self;
             year_incr = int_div13 month
         in case date_replace starting_date (Some (year_of starting_date + year_incr))
                   (Some (month - year_incr * 12)) (Some 1) of
              Inl e \<Rightarrow> Inl e
            | Inr starting_date' \<Rightarrow>
                (case self_weekday self of
                   None \<Rightarrow> Inl TypeError
                 | Some w \<Rightarrow> get_nth_weekday_of_month starting_date' (the (self_ordinal self)) w))
      else
        (case date_add starting_date (7 * self_interval self) of
           Inl e \<Rightarrow> Inl e
         | Inr starting_date' \<Rightarrow>
             (case self_weekday self of
                None \<Rightarrow> Inl TypeError
              | Some w \<Rightarrow> get_next_weekday starting_date' w)))"

text \<open>
  \<^verbatim>\<open>_get_day_period\<close>: the \<^verbatim>\<open>try\<close> catches the \<^verbatim>\<open>ValueError\<close> of the first \<^verbatim>\<open>replace\<close>,
  the only error that \<^verbatim>\<open>replace\<close> raises here.
\<close>

definition get_day_period :: "recurring_event \<Rightarrow> date \<Rightarrow> error + date" where
  "get_day_period self starting_date =
     (let month = month_of starting_date + self_interval self;
          year_incr = int_div13 month
      in case date_replace starting_date (Some (year_of starting_date + year_incr))
                (Some (month - year_incr * 12)) (self_day self) of
           Inr event \<Rightarrow> Inr event
         | Inl _ \<Rightarrow>
             (case date_replace starting_date (Some (year_of starting_date + year_incr))
                     (Some (month - year_incr * 12 + 1)) (Some 1) of
                Inl e \<Rightarrow> Inl e
              | Inr starting_date' \<Rightarrow> date_add starting_date' (- 1)))"

text \<open>\<^verbatim>\<open>get_next_date\<close>: \<open>Inr None\<close> is the \<^verbatim>\<open>None\<close> that Python returns when no branch returns.\<close>

definition get_next_date :: "recurring_event \<Rightarrow> date \<Rightarrow> error + date option" where
  "get_next_date self starting_date =
     (if truthy (self_weekday self) then
        (if the (self_weekday self) < 8
         then map_sum id Some (get_weekday_period self starting_date)
         else map_sum id Some (get_ordinal_workday_period self starting_date))
      else if truthy (self_day self) then map_sum id Some (get_day_period self starting_date)
      else if self_recurs self = 1 then map_sum id Some (get_daily_period self starting_date)
      else if self_recurs self = 2 then map_sum id Some (get_workdaily_period self starting_date)
      else Inr None)"

text \<open>
  The loop of \<^verbatim>\<open>get_events\<close>, with the object, \<^verbatim>\<open>observed_date\<close> and \<^verbatim>\<open>periods\<close> as its
  state. The result is the list returned or the exception raised, and the object as
  the loop leaves it. Comparing \<^verbatim>\<open>None\<close> with a date raises \<^verbatim>\<open>TypeError\<close>. A loop that
  runs forever has the value \<open>None\<close>.
\<close>

partial_function (option) get_events_loop ::
  "recurring_event \<Rightarrow> date \<Rightarrow> date list \<Rightarrow> ((error + date list) \<times> recurring_event) option" where
  "get_events_loop self observed_date periods =
     (case get_next_date self observed_date of
        Inl e \<Rightarrow> Some (Inl e, self)
      | Inr None \<Rightarrow> Some (Inl TypeError, self)
      | Inr (Some observed_date') \<Rightarrow>
          (case self_interval_end self of
             None \<Rightarrow> Some (Inl TypeError, self)
           | Some interval_end \<Rightarrow>
               if date_less interval_end observed_date' then Some (Inr periods, self)
               else get_events_loop (self\<lparr>self_last_occurence := observed_date'\<rparr>)
                      observed_date' (periods @ [observed_date'])))"

definition get_events ::
  "recurring_event \<Rightarrow> date option \<Rightarrow> ((error + date list) \<times> recurring_event) option" where
  "get_events self interval_end =
     (case set_interval_end self interval_end of
        Inl e \<Rightarrow> Some (Inl e, self)
      | Inr self' \<Rightarrow> get_events_loop self' (self_last_occurence self') [])"

definition number_of_periods ::
  "recurring_event \<Rightarrow> date option \<Rightarrow> ((error + int) \<times> recurring_event) option" where
  "number_of_periods self interval_end =
     map_option (\<lambda>(res, self'). (map_sum id (\<lambda>periods. int (length periods)) res, self'))
       (get_events self interval_end)"

text \<open>
  The chain of successive occurrences that the loop of \<^verbatim>\<open>get_events\<close> walks:
  \<open>nth_next_date self k d\<close> is the result of \<open>k\<close> calls of \<^verbatim>\<open>get_next_date\<close>, each on the
  date the call before returned, starting from \<open>d\<close>; \<open>None\<close> when one of the calls
  raises or returns \<^verbatim>\<open>None\<close>.
\<close>

fun nth_next_date :: "recurring_event \<Rightarrow> nat \<Rightarrow> date \<Rightarrow> date option" where
  "nth_next_date self 0 d = Some d"
| "nth_next_date self (Suc k) d =
     (case get_next_date self d of
        Inr (Some d') \<Rightarrow> nth_next_date self k d'
      | _ \<Rightarrow> None)"

section \<open>The calendar\<close>

subsection \<open>Years and months as day counts\<close>

lemma days_before_year_decomp:
  assumes "0 \<le> n100" "n100 \<le> 3" "0 \<le> n4" "n4 \<le> 24" "0 \<le> n1" "n1 \<le> 3"
  shows "days_before_year (n400 * 400 + 1 + n100 * 100 + n4 * 4 + n1)
         = 146097 * n400 + 36524 * n100 + 1461 * n4 + 365 * n1"
proof -
  define Y where "Y = n400 * 400 + n100 * 100 + n4 * 4 + n1"
  have a: "Y div 4 = 100 * n400 + 25 * n100 + n4"
    by (rule int_div_pos_eq [where r = n1]) (use assms in \<open>simp_all add: Y_def\<close>)
  have b: "Y div 100 = 4 * n400 + n100"
    by (rule int_div_pos_eq [where r = "n4 * 4 + n1"]) (use assms in \<open>simp_all add: Y_def\<close>)
  have c: "Y div 400 = n400"
    by (rule int_div_pos_eq [where r = "n100 * 100 + n4 * 4 + n1"]) (use assms in \<open>simp_all add: Y_def\<close>)
  have "days_before_year (Y + 1) = Y * 365 + Y div 4 - Y div 100 + Y div 400"
    by (simp add: days_before_year_def)
  also have "\<dots> = 146097 * n400 + 36524 * n100 + 1461 * n4 + 365 * n1"
    unfolding a b c by (simp add: Y_def)
  finally show ?thesis by (simp add: Y_def algebra_simps)
qed

lemma is_leap_decomp:
  assumes "0 \<le> n100" "n100 \<le> 3" "0 \<le> n4" "n4 \<le> 24" "0 \<le> n1" "n1 \<le> 3"
  shows "is_leap (n400 * 400 + 1 + n100 * 100 + n4 * 4 + n1)
         \<longleftrightarrow> (n1 = 3 \<and> (n4 \<noteq> 24 \<or> n100 = 3))"
proof -
  define y where "y = n400 * 400 + 1 + n100 * 100 + n4 * 4 + n1"
  have m4: "y mod 4 = (n1 + 1) mod 4"
  proof -
    have "y = (n1 + 1) + (n400 * 100 + n100 * 25 + n4) * 4" by (simp add: y_def)
    then show ?thesis by (metis mod_mult_self1)
  qed
  have m100: "y mod 100 = (n4 * 4 + n1 + 1) mod 100"
  proof -
    have "y = (n4 * 4 + n1 + 1) + (n400 * 4 + n100) * 100" by (simp add: y_def)
    then show ?thesis by (metis mod_mult_self1)
  qed
  have m400: "y mod 400 = (n100 * 100 + n4 * 4 + n1 + 1) mod 400"
  proof -
    have "y = (n100 * 100 + n4 * 4 + n1 + 1) + n400 * 400" by (simp add: y_def)
    then show ?thesis by (metis mod_mult_self1)
  qed
  have e4: "(n1 + 1) mod 4 = 0 \<longleftrightarrow> n1 = 3" using assms by presburger
  have e100: "(n4 * 4 + n1 + 1) mod 100 = 0 \<longleftrightarrow> n4 = 24 \<and> n1 = 3"
  proof
    assume h: "(n4 * 4 + n1 + 1) mod 100 = 0"
    have "0 < n4 * 4 + n1 + 1" "n4 * 4 + n1 + 1 \<le> 100" using assms by auto
    with h have "n4 * 4 + n1 + 1 = 100"
      by (smt (verit) mod_pos_pos_trivial)
    then show "n4 = 24 \<and> n1 = 3" using assms by arith
  qed auto
  have e400: "(n100 * 100 + n4 * 4 + n1 + 1) mod 400 = 0 \<longleftrightarrow> n100 = 3 \<and> n4 = 24 \<and> n1 = 3"
  proof
    assume h: "(n100 * 100 + n4 * 4 + n1 + 1) mod 400 = 0"
    have "0 < n100 * 100 + n4 * 4 + n1 + 1" "n100 * 100 + n4 * 4 + n1 + 1 \<le> 400" using assms by auto
    with h have "n100 * 100 + n4 * 4 + n1 + 1 = 400"
      by (smt (verit) mod_pos_pos_trivial)
    then show "n100 = 3 \<and> n4 = 24 \<and> n1 = 3" using assms by arith
  qed auto
  show ?thesis
    unfolding is_leap_def y_def [symmetric] m4 m100 m400 e4 e100 e400 by auto
qed


lemma ord2md_correct:
  assumes "0 \<le> n" "n \<le> 364"
  shows "1 \<le> fst (ord2md (is_leap y) n) \<and> fst (ord2md (is_leap y) n) \<le> 12 \<and>
         1 \<le> snd (ord2md (is_leap y) n) \<and>
         snd (ord2md (is_leap y) n) \<le> days_in_month y (fst (ord2md (is_leap y) n)) \<and>
         days_before_month y (fst (ord2md (is_leap y) n)) + snd (ord2md (is_leap y) n) = n + 1"
    (is ?thesis)
proof -
  define k where "k = (n + 50) div 32"
  have k: "(n + 50) div 32 = k" "32 * k \<le> n + 50" "n + 50 < 32 * k + 32"
    unfolding k_def by simp_all
  have "1 \<le> k" "k \<le> 12" using assms k(2,3) by linarith+
  then have ks: "k = 1 \<or> k = 2 \<or> k = 3 \<or> k = 4 \<or> k = 5 \<or> k = 6 \<or> k = 7 \<or> k = 8 \<or> k = 9 \<or>
    k = 10 \<or> k = 11 \<or> k = 12" by arith
  { assume "k = 1"
    with k assms have ?thesis
      by (simp add: ord2md_def Let_def days_before_month_tab_def days_before_month_def days_in_month_def)
  } note c1 = this
  { assume "k = 2"
    with k assms have ?thesis
      by (simp add: ord2md_def Let_def days_before_month_tab_def days_before_month_def days_in_month_def)
  } note c2 = this
  { assume "k = 3"
    with k assms have ?thesis
      by (simp add: ord2md_def Let_def days_before_month_tab_def days_before_month_def days_in_month_def)
  } note c3 = this
  { assume "k = 4"
    with k assms have ?thesis
      by (simp add: ord2md_def Let_def days_before_month_tab_def days_before_month_def days_in_month_def)
  } note c4 = this
  { assume "k = 5"
    with k assms have ?thesis
      by (simp add: ord2md_def Let_def days_before_month_tab_def days_before_month_def days_in_month_def)
  } note c5 = this
  { assume "k = 6"
    with k assms have ?thesis
      by (simp add: ord2md_def Let_def days_before_month_tab_def days_before_month_def days_in_month_def)
  } note c6 = this
  { assume "k = 7"
    with k assms have ?thesis
      by (simp add: ord2md_def Let_def days_before_month_tab_def days_before_month_def days_in_month_def)
  } note c7 = this
  { assume "k = 8"
    with k assms have ?thesis
      by (simp add: ord2md_def Let_def days_before_month_tab_def days_before_month_def days_in_month_def)
  } note c8 = this
  { assume "k = 9"
    with k assms have ?thesis
      by (simp add: ord2md_def Let_def days_before_month_tab_def days_before_month_def days_in_month_def)
  } note c9 = this
  { assume "k = 10"
    with k assms have ?thesis
      by (simp add: ord2md_def Let_def days_before_month_tab_def days_before_month_def days_in_month_def)
  } note c10 = this
  { assume "k = 11"
    with k assms have ?thesis
      by (simp add: ord2md_def Let_def days_before_month_tab_def days_before_month_def days_in_month_def)
  } note c11 = this
  { assume "k = 12"
    with k assms have ?thesis
      by (simp add: ord2md_def Let_def days_before_month_tab_def days_before_month_def days_in_month_def)
  } note c12 = this
  from ks c1 c2 c3 c4 c5 c6 c7 c8 c9 c10 c11 c12 show ?thesis by blast
qed

lemma div_succ_int:
  fixes Y :: int assumes "0 < k"
  shows "(Y + 1) div k = Y div k + (if (Y + 1) mod k = 0 then 1 else 0)"
proof (cases "(Y + 1) mod k = 0")
  case True
  then obtain q where q: "Y + 1 = k * q" by (metis mod_eq_0_iff_dvd dvd_def)
  have "Y = k * (q - 1) + (k - 1)" using q by (simp add: algebra_simps)
  then have "Y div k = q - 1"
    by (rule int_div_pos_eq) (use assms in auto)
  moreover have "(Y + 1) div k = q" using q assms by simp
  ultimately show ?thesis using True by simp
next
  case False
  define r where "r = (Y + 1) mod k"
  have "0 \<le> r" "r < k" using assms unfolding r_def by simp_all
  with False have r: "0 < r" "r < k" unfolding r_def by simp_all
  have e: "Y + 1 = k * ((Y + 1) div k) + r" unfolding r_def by simp
  then have "Y = k * ((Y + 1) div k) + (r - 1)" by simp
  then have "Y div k = (Y + 1) div k"
    by (rule int_div_pos_eq) (use r in auto)
  then show ?thesis using False by simp
qed

lemma days_before_year_Suc:
  "days_before_year (y + 1) = days_before_year y + 365 + (if is_leap y then 1 else 0)"
proof -
  have a: "y div 4 = (y - 1) div 4 + (if y mod 4 = 0 then 1 else 0)"
    using div_succ_int [of 4 "y - 1"] by simp
  have b: "y div 100 = (y - 1) div 100 + (if y mod 100 = 0 then 1 else 0)"
    using div_succ_int [of 100 "y - 1"] by simp
  have c: "y div 400 = (y - 1) div 400 + (if y mod 400 = 0 then 1 else 0)"
    using div_succ_int [of 400 "y - 1"] by simp
  have d: "y mod 400 = 0 \<Longrightarrow> y mod 100 = 0"
  proof -
    assume "y mod 400 = 0"
    then have "400 dvd y" by (simp add: dvd_eq_mod_eq_0)
    moreover have "(100::int) dvd 400" by simp
    ultimately have "100 dvd y" by (rule dvd_trans [rotated])
    then show ?thesis by (simp add: dvd_eq_mod_eq_0)
  qed
  have e: "y mod 100 = 0 \<Longrightarrow> y mod 4 = 0"
  proof -
    assume "y mod 100 = 0"
    then have "100 dvd y" by (simp add: dvd_eq_mod_eq_0)
    moreover have "(4::int) dvd 100" by simp
    ultimately have "4 dvd y" by (rule dvd_trans [rotated])
    then show ?thesis by (simp add: dvd_eq_mod_eq_0)
  qed
  define A :: int where "A = (if y mod 4 = 0 then 1 else 0)"
  define B :: int where "B = (if y mod 100 = 0 then 1 else 0)"
  define C :: int where "C = (if y mod 400 = 0 then 1 else 0)"
  have l: "(if is_leap y then 1 else 0) = A - B + C"
  proof (cases "y mod 4 = 0")
    case False
    have n100: "y mod 100 \<noteq> 0" by (rule contrapos_nn [OF False]) (rule e)
    have "y mod 400 \<noteq> 0" by (rule contrapos_nn [OF n100]) (rule d)
    note n100 this
    with False show ?thesis by (simp add: is_leap_def A_def B_def C_def)
  next
    case y4: True
    show ?thesis
    proof (cases "y mod 100 = 0")
      case False
      have "y mod 400 \<noteq> 0" by (rule contrapos_nn [OF False]) (rule d)
      with y4 False show ?thesis by (simp add: is_leap_def A_def B_def C_def)
    next
      case True
      with y4 show ?thesis by (simp add: is_leap_def A_def B_def C_def)
    qed
  qed
  have "days_before_year (y + 1) = y * 365 + y div 4 - y div 100 + y div 400"
    by (simp add: days_before_year_def)
  also have "\<dots> = y * 365 + ((y - 1) div 4 + A) - ((y - 1) div 100 + B) + ((y - 1) div 400 + C)"
    unfolding A_def B_def C_def by (simp only: a b c)
  also have "\<dots> = days_before_year y + 365 + (A - B + C)"
    by (simp add: days_before_year_def left_diff_distrib)
  finally show ?thesis by (simp only: l)
qed

lemma days_before_year_mono_step: "days_before_year y < days_before_year (y + 1)"
  by (simp add: days_before_year_Suc)

lemma days_before_year_mono: "y \<le> y' \<Longrightarrow> days_before_year y \<le> days_before_year y'"
proof (induction y' rule: int_ge_induct)
  case base
  then show ?case by simp
next
  case (step i)
  then show ?case using days_before_year_mono_step [of i] by simp
qed

lemma days_before_year_1: "days_before_year 1 = 0"
  by (simp add: days_before_year_def)

lemma days_before_year_10000: "days_before_year 10000 = 3652059"
  by (simp add: days_before_year_def)

lemma days_before_month_Suc:
  assumes "1 \<le> m" "m \<le> 11"
  shows "days_before_month y (m + 1) = days_before_month y m + days_in_month y m"
proof -
  from assms have ms: "m = 1 \<or> m = 2 \<or> m = 3 \<or> m = 4 \<or> m = 5 \<or> m = 6 \<or> m = 7 \<or> m = 8 \<or>
    m = 9 \<or> m = 10 \<or> m = 11" by arith
  have c1: ?thesis if "m = 1"
    using that by (simp add: days_before_month_def days_before_month_tab_def days_in_month_def)
  have c2: ?thesis if "m = 2"
    using that by (simp add: days_before_month_def days_before_month_tab_def days_in_month_def)
  have c3: ?thesis if "m = 3"
    using that by (simp add: days_before_month_def days_before_month_tab_def days_in_month_def)
  have c4: ?thesis if "m = 4"
    using that by (simp add: days_before_month_def days_before_month_tab_def days_in_month_def)
  have c5: ?thesis if "m = 5"
    using that by (simp add: days_before_month_def days_before_month_tab_def days_in_month_def)
  have c6: ?thesis if "m = 6"
    using that by (simp add: days_before_month_def days_before_month_tab_def days_in_month_def)
  have c7: ?thesis if "m = 7"
    using that by (simp add: days_before_month_def days_before_month_tab_def days_in_month_def)
  have c8: ?thesis if "m = 8"
    using that by (simp add: days_before_month_def days_before_month_tab_def days_in_month_def)
  have c9: ?thesis if "m = 9"
    using that by (simp add: days_before_month_def days_before_month_tab_def days_in_month_def)
  have c10: ?thesis if "m = 10"
    using that by (simp add: days_before_month_def days_before_month_tab_def days_in_month_def)
  have c11: ?thesis if "m = 11"
    using that by (simp add: days_before_month_def days_before_month_tab_def days_in_month_def)
  from ms c1 c2 c3 c4 c5 c6 c7 c8 c9 c10 c11 show ?thesis by blast
qed

lemma days_before_month_mono:
  "m \<le> m' \<Longrightarrow> 1 \<le> m \<Longrightarrow> m' \<le> 12 \<Longrightarrow> days_before_month y m \<le> days_before_month y m'"
proof (induction m' rule: int_ge_induct)
  case base
  then show ?case by simp
next
  case (step i)
  have "0 \<le> days_in_month y i" by (simp add: days_in_month_def)
  with step show ?case using days_before_month_Suc [of i y] by simp
qed

lemma days_before_month_12: "days_before_month y 12 + 31 = 365 + (if is_leap y then 1 else 0)"
  by (simp add: days_before_month_def days_before_month_tab_def)

lemma days_before_month_nonneg: "0 \<le> days_before_month y m"
  by (simp add: days_before_month_def days_before_month_tab_def)

lemma days_before_month_1: "days_before_month y 1 = 0"
  by (simp add: days_before_month_def days_before_month_tab_def)

lemma days_in_month_bounds: "28 \<le> days_in_month y m" "days_in_month y m \<le> 31"
  by (simp_all add: days_in_month_def)

subsection \<open>Ordinals order the dates\<close>

lemma month_end_le:
  assumes "1 \<le> m" "m \<le> 12" "d \<le> days_in_month y m"
  shows "days_before_month y m + d \<le> 365 + (if is_leap y then 1 else 0)"
proof (cases "m = 12")
  case True
  have "days_in_month y 12 = 31" by (simp add: days_in_month_def)
  with assms True have "d \<le> 31" by simp
  then show ?thesis using True days_before_month_12 [of y] by simp
next
  case False
  with assms have m: "m \<le> 11" by simp
  have "days_before_month y m + d \<le> days_before_month y (m + 1)"
    using days_before_month_Suc [OF assms(1) m, of y] assms(3) by simp
  also have "\<dots> \<le> days_before_month y 12"
    by (rule days_before_month_mono) (use assms m in simp_all)
  also have "\<dots> \<le> 365 + (if is_leap y then 1 else 0)"
    using days_before_month_12 [of y] by simp
  finally show ?thesis .
qed

lemma ymd2ord_less:
  assumes "1 \<le> m" "m \<le> 12" "d \<le> days_in_month y m"
    and "1 \<le> m'" "m' \<le> 12" "1 \<le> d'"
    and "y < y' \<or> (y = y' \<and> (m < m' \<or> (m = m' \<and> d < d')))"
  shows "ymd2ord y m d < ymd2ord y' m' d'"
proof -
  consider (year) "y < y'" | (month) "y = y'" "m < m'" | (day) "y = y'" "m = m'" "d < d'"
    using assms(7) by blast
  then show ?thesis
  proof cases
    case year
    have "ymd2ord y m d \<le> days_before_year y + 365 + (if is_leap y then 1 else 0)"
      using month_end_le [OF assms(1-3)] by (simp add: ymd2ord_def)
    also have "\<dots> = days_before_year (y + 1)" by (simp add: days_before_year_Suc)
    also have "\<dots> \<le> days_before_year y'"
      by (rule days_before_year_mono) (use year in simp)
    also have "\<dots> < ymd2ord y' m' d'"
      using days_before_month_nonneg [of y' m'] assms(6) by (simp add: ymd2ord_def)
    finally show ?thesis .
  next
    case month
    then have m: "m \<le> 11" using assms(5) by simp
    have "days_before_month y m + d \<le> days_before_month y (m + 1)"
      using days_before_month_Suc [OF assms(1) m, of y] assms(3) by simp
    also have "\<dots> \<le> days_before_month y m'"
      by (rule days_before_month_mono) (use assms month in simp_all)
    finally show ?thesis using month(1) assms(6) by (simp add: ymd2ord_def)
  next
    case day
    then show ?thesis by (simp add: ymd2ord_def)
  qed
qed

lemma toordinal_less:
  assumes "valid_date a" "valid_date b" "date_less a b"
  shows "toordinal a < toordinal b"
  unfolding toordinal_def
  by (rule ymd2ord_less) (use assms in \<open>auto simp: valid_date_def date_less_def\<close>)

lemma date_less_cases: "date_less a b \<or> a = b \<or> date_less b a"
  by (cases a; cases b) (auto simp: date_less_def)

lemma toordinal_inj:
  assumes "valid_date a" "valid_date b" "toordinal a = toordinal b"
  shows "a = b"
  using date_less_cases [of a b] toordinal_less [OF assms(1,2)] toordinal_less [OF assms(2,1)]
    assms(3) by auto

lemma toordinal_less_iff:
  assumes "valid_date a" "valid_date b"
  shows "date_less a b \<longleftrightarrow> toordinal a < toordinal b"
  using date_less_cases [of a b] toordinal_less [OF assms(1,2)] toordinal_less [OF assms(2,1)]
  by auto

lemma toordinal_range:
  assumes "valid_date a"
  shows "1 \<le> toordinal a" "toordinal a \<le> MAXORDINAL"
proof -
  have "days_before_year 1 \<le> days_before_year (year_of a)"
    by (rule days_before_year_mono) (use assms in \<open>simp add: valid_date_def\<close>)
  then show "1 \<le> toordinal a"
    using days_before_month_nonneg [of "year_of a" "month_of a"] assms
    by (simp add: toordinal_def ymd2ord_def days_before_year_1 valid_date_def)
  have "ymd2ord (year_of a) (month_of a) (day_of a) < ymd2ord 10000 1 1"
    by (rule ymd2ord_less) (use assms in \<open>auto simp: valid_date_def\<close>)
  then show "toordinal a \<le> MAXORDINAL"
    by (simp add: toordinal_def ymd2ord_def days_before_year_10000 days_before_month_1
        MAXORDINAL_def)
qed

subsection \<open>The conversion from ordinals is the inverse\<close>

lemma divmod_facts:
  fixes a :: int assumes "0 \<le> a" "0 < k"
  shows "a = k * (a div k) + a mod k" "0 \<le> a mod k" "a mod k < k" "0 \<le> a div k"
  using assms by (simp_all add: pos_imp_zdiv_nonneg_iff)

lemma fromordinal_correct:
  assumes "1 \<le> n"
  shows "1 \<le> year_of (fromordinal n) \<and>
         1 \<le> month_of (fromordinal n) \<and> month_of (fromordinal n) \<le> 12 \<and>
         1 \<le> day_of (fromordinal n) \<and>
         day_of (fromordinal n) \<le> days_in_month (year_of (fromordinal n)) (month_of (fromordinal n)) \<and>
         toordinal (fromordinal n) = n"
proof -
  define n0 where "n0 = n - 1"
  define n400 where "n400 = n0 div 146097"
  define r400 where "r400 = n0 mod 146097"
  define n100 where "n100 = r400 div 36524"
  define r100 where "r100 = r400 mod 36524"
  define n4 where "n4 = r100 div 1461"
  define r4 where "r4 = r100 mod 1461"
  define n1 where "n1 = r4 div 365"
  define r1 where "r1 = r4 mod 365"
  define y where "y = n400 * 400 + 1 + n100 * 100 + n4 * 4 + n1"
  have n0: "0 \<le> n0" using assms by (simp add: n0_def)
  have f400: "n0 = 146097 * n400 + r400" "0 \<le> r400" "r400 < 146097" "0 \<le> n400"
    unfolding n400_def r400_def using divmod_facts [OF n0, of 146097] by simp_all
  have f100: "r400 = 36524 * n100 + r100" "0 \<le> r100" "r100 < 36524" "0 \<le> n100"
    unfolding n100_def r100_def using divmod_facts [OF f400(2), of 36524] by simp_all
  have f4: "r100 = 1461 * n4 + r4" "0 \<le> r4" "r4 < 1461" "0 \<le> n4"
    unfolding n4_def r4_def using divmod_facts [OF f100(2), of 1461] by simp_all
  have f1: "r4 = 365 * n1 + r1" "0 \<le> r1" "r1 < 365" "0 \<le> n1"
    unfolding n1_def r1_def using divmod_facts [OF f4(2), of 365] by simp_all
  have b100: "n100 \<le> 4" using f400 f100 by linarith
  have b4: "n4 \<le> 24" using f100 f4 by linarith
  have b1: "n1 \<le> 4" using f4 f1 by linarith
  have nn: "n = 146097 * n400 + 36524 * n100 + 1461 * n4 + 365 * n1 + r1 + 1"
    using f400(1) f100(1) f4(1) f1(1) by (simp add: n0_def)
  have unf: "fromordinal n =
    (if n1 = 4 \<or> n100 = 4 then Date (y - 1) 12 31
     else Date y (fst (ord2md (n1 = 3 \<and> (n4 \<noteq> 24 \<or> n100 = 3)) r1))
                 (snd (ord2md (n1 = 3 \<and> (n4 \<noteq> 24 \<or> n100 = 3)) r1)))"
    by (simp add: fromordinal_def Let_def y_def n1_def r1_def n4_def r4_def n100_def r100_def
        n400_def r400_def n0_def)
  consider (c100) "n100 = 4" | (c1) "n100 \<le> 3" "n1 = 4" | (reg) "n100 \<le> 3" "n1 \<le> 3"
    using b100 b1 by linarith
  then show ?thesis
  proof cases
    case c100
    have z: "r100 = 0" "n4 = 0" "r4 = 0" "n1 = 0" "r1 = 0"
      using c100 f400 f100 f4 f1 by linarith+
    have fo: "fromordinal n = Date (n400 * 400 + 400) 12 31"
      using c100 z by (simp add: unf y_def)
    have yy: "n400 * 400 + 400 = n400 * 400 + 1 + 3 * 100 + 24 * 4 + 3" by simp
    have lp: "is_leap (n400 * 400 + 400)"
      unfolding yy by (subst is_leap_decomp) simp_all
    have dy: "days_before_year (n400 * 400 + 400) = 146097 * n400 + 145731"
      unfolding yy by (subst days_before_year_decomp) simp_all
    have "toordinal (Date (n400 * 400 + 400) 12 31) = n"
      using days_before_month_12 [of "n400 * 400 + 400"] lp dy nn c100 z
      by (simp add: toordinal_def ymd2ord_def)
    then have "toordinal (fromordinal n) = n" by (simp only: fo)
    moreover have "1 \<le> n400 * 400 + 400" using f400(4) by linarith
    ultimately show ?thesis by (simp add: fo days_in_month_def)
  next
    case c1
    have z: "r1 = 0" using c1 f4 f1 by linarith
    have b4': "n4 \<le> 23" using c1 z f100 f4 f1 by linarith
    have fo: "fromordinal n = Date (n400 * 400 + 1 + n100 * 100 + n4 * 4 + 3) 12 31"
      using c1 by (simp add: unf y_def)
    have lp: "is_leap (n400 * 400 + 1 + n100 * 100 + n4 * 4 + 3)"
      by (subst is_leap_decomp) (use c1 f100 f4 b4' in simp_all)
    have dy: "days_before_year (n400 * 400 + 1 + n100 * 100 + n4 * 4 + 3)
       = 146097 * n400 + 36524 * n100 + 1461 * n4 + 365 * 3"
      by (rule days_before_year_decomp) (use c1 f100 f4 b4' in simp_all)
    have "toordinal (Date (n400 * 400 + 1 + n100 * 100 + n4 * 4 + 3) 12 31) = n"
      using days_before_month_12 [of "n400 * 400 + 1 + n100 * 100 + n4 * 4 + 3"] lp dy nn c1 z
      by (simp add: toordinal_def ymd2ord_def)
    then have "toordinal (fromordinal n) = n" by (simp only: fo)
    moreover have "1 \<le> n400 * 400 + 1 + n100 * 100 + n4 * 4 + 3"
      using f400(4) f100(4) f4(4) by linarith
    ultimately show ?thesis by (simp add: fo days_in_month_def)
  next
    case reg
    have lp: "is_leap y \<longleftrightarrow> (n1 = 3 \<and> (n4 \<noteq> 24 \<or> n100 = 3))"
      unfolding y_def by (rule is_leap_decomp) (use reg f100 f4 f1 b4 in simp_all)
    have dy: "days_before_year y = 146097 * n400 + 36524 * n100 + 1461 * n4 + 365 * n1"
      unfolding y_def by (rule days_before_year_decomp) (use reg f100 f4 f1 b4 in simp_all)
    have "r1 \<le> 364" using f1 by simp
    note md = ord2md_correct [OF f1(2) this, of y]
    have fo: "fromordinal n = Date y (fst (ord2md (is_leap y) r1)) (snd (ord2md (is_leap y) r1))"
      using reg by (simp add: unf lp)
    have "toordinal (Date y (fst (ord2md (is_leap y) r1)) (snd (ord2md (is_leap y) r1))) = n"
      using md dy nn by (simp add: toordinal_def ymd2ord_def)
    then have "toordinal (fromordinal n) = n" by (simp only: fo)
    moreover have "1 \<le> y" unfolding y_def using f400(4) f100(4) f4(4) f1(4) by linarith
    ultimately show ?thesis using md by (simp add: fo)
  qed
qed

lemma fromordinal_valid:
  assumes "1 \<le> n" "n \<le> MAXORDINAL"
  shows "valid_date (fromordinal n)" "toordinal (fromordinal n) = n"
proof -
  note c = fromordinal_correct [OF assms(1)]
  show t: "toordinal (fromordinal n) = n" using c by simp
  have "year_of (fromordinal n) \<le> 9999"
  proof (rule ccontr)
    assume "\<not> year_of (fromordinal n) \<le> 9999"
    then have "10000 \<le> year_of (fromordinal n)" by simp
    then have "days_before_year 10000 \<le> days_before_year (year_of (fromordinal n))"
      by (rule days_before_year_mono)
    then have "3652059 < toordinal (fromordinal n)"
      using days_before_month_nonneg [of "year_of (fromordinal n)" "month_of (fromordinal n)"] c
      by (simp add: toordinal_def ymd2ord_def days_before_year_10000)
    with t assms(2) show False by (simp add: MAXORDINAL_def)
  qed
  with c show "valid_date (fromordinal n)" by (simp add: valid_date_def)
qed

lemma fromordinal_toordinal:
  assumes "valid_date a"
  shows "fromordinal (toordinal a) = a"
proof -
  note r = toordinal_range [OF assms]
  note f = fromordinal_valid [OF r]
  show ?thesis by (rule toordinal_inj [OF f(1) assms f(2)])
qed

lemma date_add_Inr:
  assumes "valid_date x" "date_add x k = Inr z"
  shows "valid_date z" "toordinal z = toordinal x + k"
proof -
  from assms(2) have r: "1 \<le> toordinal x + k" "toordinal x + k \<le> MAXORDINAL"
    and z: "z = fromordinal (toordinal x + k)"
    by (auto simp: date_add_def Let_def split: if_splits)
  show "valid_date z" "toordinal z = toordinal x + k"
    unfolding z by (rule fromordinal_valid [OF r])+
qed

lemma date_add_ok:
  assumes "1 \<le> toordinal x + k" "toordinal x + k \<le> MAXORDINAL"
  shows "date_add x k = Inr (fromordinal (toordinal x + k))"
  using assms by (simp add: date_add_def Let_def)

lemma date_add_zero:
  assumes "valid_date x"
  shows "date_add x 0 = Inr x"
  using toordinal_range [OF assms] fromordinal_toordinal [OF assms]
  by (simp add: date_add_def Let_def)

lemma date_replace_Inr:
  assumes "date_replace x yo mo dayo = Inr z"
  shows "valid_date z"
    and "year_of z = (case yo of None \<Rightarrow> year_of x | Some v \<Rightarrow> v)"
    and "month_of z = (case mo of None \<Rightarrow> month_of x | Some v \<Rightarrow> v)"
    and "day_of z = (case dayo of None \<Rightarrow> day_of x | Some v \<Rightarrow> v)"
  using assms by (auto simp: date_replace_def Let_def split: if_splits)

lemma date_weekday_range: "0 \<le> date_weekday x" "date_weekday x \<le> 6"
  by (simp_all add: date_weekday_def)

lemma date_weekday_add:
  assumes "valid_date x" "date_add x k = Inr z"
  shows "date_weekday z = (date_weekday x + k) mod 7"
  using date_add_Inr(2) [OF assms] by (simp add: date_weekday_def mod_simps algebra_simps)

lemma date_less_irrefl: "\<not> date_less a a"
  by (simp add: date_less_def)

lemma date_less_trans: "date_less a b \<Longrightarrow> date_less b c \<Longrightarrow> date_less a c"
  by (auto simp: date_less_def)

lemma first_of_month_ord:
  assumes "valid_date x"
  shows "toordinal (Date (year_of x) (month_of x) 1) \<le> toordinal x"
    and "toordinal x \<le> toordinal (Date (year_of x) (month_of x) 1)
           + days_in_month (year_of x) (month_of x) - 1"
  using assms by (simp_all add: toordinal_def ymd2ord_def valid_date_def)

section \<open>The horizon without an argument\<close>

text \<open>
  C3. \<^verbatim>\<open>set_interval_end()\<close> with no argument is documented to take the current date
  as the horizon. The code evaluates \<^verbatim>\<open>datetime.now()\<close>, and the module never binds the
  name \<^verbatim>\<open>datetime\<close>: the call raises \<^verbatim>\<open>NameError\<close> and sets no horizon, and
  \<^verbatim>\<open>get_events()\<close> with no horizon fails in the same way, leaving the object as it was.
\<close>

theorem set_interval_end_without_argument_raises:
  "set_interval_end self None = Inl NameError \<and>
   get_events self None = Some (Inl NameError, self)"
  by (simp add: set_interval_end_def get_events_def)

section \<open>The month and year rollover\<close>

lemma rollover_months: "fst (rollover y m i) * 12 + snd (rollover y m i) = y * 12 + m + i"
  by (simp add: rollover_def Let_def algebra_simps)

lemma get_day_period_rollover:
  "get_day_period self starting_date =
     (case date_replace starting_date
             (Some (fst (rollover (year_of starting_date) (month_of starting_date) (self_interval self))))
             (Some (snd (rollover (year_of starting_date) (month_of starting_date) (self_interval self))))
             (self_day self) of
        Inr event \<Rightarrow> Inr event
      | Inl _ \<Rightarrow>
          (case date_replace starting_date
                  (Some (fst (rollover (year_of starting_date) (month_of starting_date) (self_interval self))))
                  (Some (snd (rollover (year_of starting_date) (month_of starting_date) (self_interval self)) + 1))
                  (Some 1) of
             Inl e \<Rightarrow> Inl e
           | Inr starting_date' \<Rightarrow> date_add starting_date' (- 1)))"
  unfolding get_day_period_def rollover_def Let_def fst_conv snd_conv by (rule refl)

lemma rollover_range:
  assumes "1 \<le> m" "m \<le> 12" "1 \<le> i" "m + i \<le> 24"
  shows "1 \<le> snd (rollover y m i) \<and> snd (rollover y m i) \<le> 12 \<and>
         fst (rollover y m i) * 12 + snd (rollover y m i) = y * 12 + m + i"
proof -
  have "m + i < 13 \<or> (13 \<le> m + i \<and> m + i < 26)" using assms by linarith
  then show ?thesis
  proof
    assume "m + i < 13"
    then have "(m + i) div 13 = 0" using assms by simp
    then show ?thesis using assms \<open>m + i < 13\<close> by (simp add: rollover_def int_div13_def Let_def)
  next
    assume h: "13 \<le> m + i \<and> m + i < 26"
    have "(m + i) div 13 = 1"
      by (rule int_div_pos_eq [where r = "m + i - 13"]) (use h in simp_all)
    then show ?thesis using assms h by (simp add: rollover_def int_div13_def Let_def)
  qed
qed

lemma rollover_year_ge:
  assumes "1 \<le> m" "1 \<le> i"
  shows "y \<le> fst (rollover y m i)"
proof -
  have "0 \<le> (m + i) div 13" using assms by (simp add: pos_imp_zdiv_nonneg_iff)
  then show ?thesis using assms by (simp add: rollover_def int_div13_def Let_def)
qed

text \<open>
  C5, as stated: for every month \<open>m\<close> in 1..12 and every interval \<open>i \<ge> 1\<close> the target
  month is in 1..12. It fails from December with an interval of 13 months: the raw month
  is 25, \<^verbatim>\<open>int(25 / 13)\<close> is 1, and the target month is 13.
\<close>

theorem rollover_month_13_counterexample:
  "\<not> (1 \<le> snd (rollover 2023 12 13) \<and> snd (rollover 2023 12 13) \<le> 12)"
  by (simp add: rollover_def int_div13_def Let_def)

text \<open>
  C5, amended: for every month \<open>m\<close> in 1..12 and every interval \<open>i \<ge> 1\<close> with
  \<open>m + i \<le> 24\<close> (so for every interval from 1 to 12, the documented range), the target
  month is in 1..12 and the target year and month are exactly \<open>i\<close> months after the
  year and month the rule starts from.
\<close>

theorem rollover_within_two_years:
  assumes "1 \<le> m" "m \<le> 12" "1 \<le> i" "m + i \<le> 24"
  shows "1 \<le> snd (rollover y m i) \<and> snd (rollover y m i) \<le> 12 \<and>
         fst (rollover y m i) * 12 + snd (rollover y m i) = y * 12 + m + i"
  by (rule rollover_range [OF assms])

theorem rollover_within_two_years_witness:
  "rollover 2023 12 12 = (2024, 12) \<and> 2024 * 12 + 12 = (2023 * 12 + 12 + 12 :: int)"
  using rollover_within_two_years [of 12 12 2023] by (simp add: rollover_def int_div13_def Let_def)

section \<open>Construction\<close>

lemma error_chain_Inr_iff:
  "(if c0 then Inl e0 else if c1 then Inl e1 else if c2 then Inl e2 else if c3 then Inl e3
    else if c4 then Inl e4 else if c5 then Inl e5 else if c6 then Inl e6
    else if c7 then Inl e7 else if c8 then Inl e8 else if c9 then Inl e9 else Inr ()) = Inr ()
   \<longleftrightarrow> \<not> c0 \<and> \<not> c1 \<and> \<not> c2 \<and> \<not> c3 \<and> \<not> c4 \<and> \<not> c5 \<and> \<not> c6 \<and> \<not> c7 \<and> \<not> c8 \<and> \<not> c9"
  by simp

lemma check_consistency_Inr_iff:
  "check_consistency l r d ordn w = Inr () \<longleftrightarrow>
     \<not> \<not> (case l of PyDate _ \<Rightarrow> True | _ \<Rightarrow> False) \<and>
     \<not> (truthy d \<and> (the d < 1 \<or> the d > 31)) \<and>
     \<not> (truthy ordn \<and> (the ordn < 1 \<or> the ordn > 5)) \<and>
     \<not> (truthy d \<and> truthy ordn) \<and>
     \<not> (truthy d \<and> truthy w) \<and>
     \<not> (w = Some 8 \<and> r \<noteq> 4) \<and>
     \<not> (w = Some 8 \<and> \<not> truthy ordn) \<and>
     \<not> (r \<noteq> 4 \<and> truthy d) \<and>
     \<not> (\<not> (r = 2 \<or> r = 4) \<and> truthy ordn) \<and>
     \<not> (\<not> (r = 3 \<or> r = 4) \<and> truthy w)"
  unfolding check_consistency_def by (rule error_chain_Inr_iff)

lemma truthy_or_none: "truthy (or_none v) = truthy v"
  by (simp add: or_none_def truthy_def split: option.splits)

lemma or_none_eq_8: "or_none v = Some 8 \<longleftrightarrow> v = Some 8"
  by (auto simp: or_none_def truthy_def split: option.splits)

lemma the_or_none: "truthy v \<Longrightarrow> the (or_none v) = the v"
  by (simp add: or_none_def)

lemma RecurringEvent_Inr_iff:
  "(\<exists>self. RecurringEvent lo recurs interval day ordinal weekday fo = Inr self) \<longleftrightarrow>
   check_consistency (if lo \<noteq> PyNone then lo else fo) recurs (or_none day) (or_none ordinal)
     (or_none weekday) = Inr ()"
proof (cases "check_consistency (if lo \<noteq> PyNone then lo else fo) recurs (or_none day)
     (or_none ordinal) (or_none weekday)")
  case (Inl e)
  then show ?thesis by (simp add: RecurringEvent_def Let_def)
next
  case (Inr u)
  then have d: "case (if lo \<noteq> PyNone then lo else fo) of PyDate _ \<Rightarrow> True | _ \<Rightarrow> False"
    using check_consistency_Inr_iff [of "if lo \<noteq> PyNone then lo else fo" recurs "or_none day"
        "or_none ordinal" "or_none weekday"] by simp
  then obtain x where "(if lo \<noteq> PyNone then lo else fo) = PyDate x"
    by (cases "if lo \<noteq> PyNone then lo else fo") simp_all
  with Inr show ?thesis by (simp add: RecurringEvent_def Let_def)
qed

text \<open>
  C6, as stated: every integer day outside 1..31 and every integer ordinal outside 1..5,
  0 included, is rejected by the constructor. The constructor first replaces a false
  value by \<^verbatim>\<open>None\<close> (\<^verbatim>\<open>day if day else None\<close>), so a day of 0 and an ordinal of 0 are taken
  as not given and the object is built.
\<close>

theorem RecurringEvent_accepts_zero_counterexample:
  "RecurringEvent (PyDate (Date 2023 1 1)) 4 1 (Some 0) (Some 0) None PyNone =
     Inr \<lparr>self_last_occurence = Date 2023 1 1, self_recurs = 4, self_interval = 1,
          self_day = None, self_ordinal = None, self_weekday = None,
          self_interval_end = None\<rparr>"
  by (simp add: RecurringEvent_def check_consistency_def or_none_def truthy_def)

text \<open>
  C6, amended: the constructor raises when the last occurrence it keeps
  (\<^verbatim>\<open>last_occurence\<close>, or \<^verbatim>\<open>first_occurence\<close> when that is \<^verbatim>\<open>None\<close>) is not a date, when a day
  other than 0 lies outside 1..31, when an ordinal other than 0 lies outside 1..5, and
  when one of the combinations of fields that the data model forbids is given, a field
  counting as given when it is neither \<^verbatim>\<open>None\<close> nor 0.
\<close>

theorem RecurringEvent_rejects:
  assumes "(\<forall>x. (if lo \<noteq> PyNone then lo else fo) \<noteq> PyDate x)
    \<or> (\<exists>v. day = Some v \<and> v \<noteq> 0 \<and> (v < 1 \<or> 31 < v))
    \<or> (\<exists>v. ordinal = Some v \<and> v \<noteq> 0 \<and> (v < 1 \<or> 5 < v))
    \<or> (truthy day \<and> truthy ordinal)
    \<or> (truthy day \<and> truthy weekday)
    \<or> (weekday = Some 8 \<and> (recurs \<noteq> 4 \<or> \<not> truthy ordinal))
    \<or> (truthy day \<and> recurs \<noteq> 4)
    \<or> (truthy ordinal \<and> recurs \<noteq> 2 \<and> recurs \<noteq> 4)
    \<or> (truthy weekday \<and> recurs \<noteq> 3 \<and> recurs \<noteq> 4)"
  shows "\<exists>e. RecurringEvent lo recurs interval day ordinal weekday fo = Inl e"
proof -
  let ?l = "if lo \<noteq> PyNone then lo else fo"
  have a: "(\<forall>x. ?l \<noteq> PyDate x) \<Longrightarrow> \<not> (case ?l of PyDate _ \<Rightarrow> True | _ \<Rightarrow> False)"
    by (cases ?l) simp_all
  have b: "(\<exists>v. day = Some v \<and> v \<noteq> 0 \<and> (v < 1 \<or> 31 < v))
      \<Longrightarrow> truthy (or_none day) \<and> (the (or_none day) < 1 \<or> the (or_none day) > 31)"
    by (auto simp: or_none_def truthy_def)
  have c: "(\<exists>v. ordinal = Some v \<and> v \<noteq> 0 \<and> (v < 1 \<or> 5 < v))
      \<Longrightarrow> truthy (or_none ordinal) \<and> (the (or_none ordinal) < 1 \<or> the (or_none ordinal) > 5)"
    by (auto simp: or_none_def truthy_def)
  have "check_consistency ?l recurs (or_none day) (or_none ordinal) (or_none weekday) \<noteq> Inr ()"
    unfolding check_consistency_Inr_iff truthy_or_none or_none_eq_8
    using assms a b c unfolding truthy_or_none by blast
  then have "\<not> (\<exists>self. RecurringEvent lo recurs interval day ordinal weekday fo = Inr self)"
    by (simp only: RecurringEvent_Inr_iff not_False_eq_True)
  then show ?thesis
    by (cases "RecurringEvent lo recurs interval day ordinal weekday fo") auto
qed

theorem RecurringEvent_rejects_witness:
  "\<exists>e. RecurringEvent (PyDate (Date 2023 1 1)) 4 1 (Some 32) None None PyNone = Inl e"
  using RecurringEvent_rejects [of "PyDate (Date 2023 1 1)" PyNone "Some 32" None None 4 1] by simp

section \<open>Enumeration\<close>

subsection \<open>The chain of occurrences and the loop\<close>

lemma get_next_date_cursor [simp]:
  "get_next_date (self\<lparr>self_last_occurence := x\<rparr>) d = get_next_date self d"
  "get_next_date (self\<lparr>self_interval_end := e\<rparr>) d = get_next_date self d"
proof -
  obtain lo r i dy ordn w ie where s: "self = \<lparr>self_last_occurence = lo, self_recurs = r,
    self_interval = i, self_day = dy, self_ordinal = ordn, self_weekday = w,
    self_interval_end = ie\<rparr>"
    by (cases self) auto
  show "get_next_date (self\<lparr>self_last_occurence := x\<rparr>) d = get_next_date self d"
    unfolding s get_next_date_def get_weekday_period_def get_ordinal_workday_period_def
      get_day_period_def get_daily_period_def get_workdaily_period_def
      recurring_event.update_convs recurring_event.select_convs
    by (rule refl)
  show "get_next_date (self\<lparr>self_interval_end := e\<rparr>) d = get_next_date self d"
    unfolding s get_next_date_def get_weekday_period_def get_ordinal_workday_period_def
      get_day_period_def get_daily_period_def get_workdaily_period_def
      recurring_event.update_convs recurring_event.select_convs
    by (rule refl)
qed

lemma nth_next_date_cursor [simp]:
  "nth_next_date (self\<lparr>self_last_occurence := x\<rparr>) k d = nth_next_date self k d"
  "nth_next_date (self\<lparr>self_interval_end := e\<rparr>) k d = nth_next_date self k d"
  by (induction k arbitrary: d) (simp_all split: sum.splits option.splits)

lemma nth_next_date_1:
  "nth_next_date self (Suc 0) d = Some d' \<longleftrightarrow> get_next_date self d = Inr (Some d')"
  by (simp split: sum.splits option.splits)

lemma nth_next_date_Suc_shift:
  assumes "get_next_date self d = Inr (Some d')"
  shows "nth_next_date self (Suc k) d = nth_next_date self k d'"
  using assms by simp

lemma nth_next_date_back:
  "nth_next_date self (Suc k) d =
     (case nth_next_date self k d of
        None \<Rightarrow> None
      | Some d' \<Rightarrow> (case get_next_date self d' of Inr (Some d'') \<Rightarrow> Some d'' | _ \<Rightarrow> None))"
proof (induction k arbitrary: d)
  case 0
  show ?case by (simp split: sum.splits option.splits)
next
  case (Suc k)
  show ?case
  proof (cases "get_next_date self d")
    case (Inl e)
    then show ?thesis by simp
  next
    case (Inr r)
    show ?thesis
    proof (cases r)
      case None
      with Inr show ?thesis by simp
    next
      case (Some d')
      have "nth_next_date self (Suc (Suc k)) d = nth_next_date self (Suc k) d'"
        using Inr Some by simp
      also note Suc.IH [of d']
      finally show ?thesis using Inr Some by simp
    qed
  qed
qed

lemma date_le_iff: "date_le a b \<longleftrightarrow> \<not> date_less b a"
  by (cases a; cases b) (auto simp: date_le_def date_less_def)

lemma get_events_loop_run:
  assumes "self_interval_end self = Some h"
    and "\<And>k. k \<le> n \<Longrightarrow> nth_next_date self (Suc k) obs = Some (c k)"
    and "\<And>k. k < n \<Longrightarrow> \<not> date_less h (c k)"
    and "date_less h (c n)"
  shows "get_events_loop self obs periods =
    Some (Inr (periods @ map c [0..<n]),
          (if n = 0 then self else self\<lparr>self_last_occurence := c (n - 1)\<rparr>))"
  using assms
proof (induction n arbitrary: self obs periods c)
  case 0
  have "nth_next_date self (Suc 0) obs = Some (c 0)" by (rule 0(2)) simp
  then have g: "get_next_date self obs = Inr (Some (c 0))" by (simp only: nth_next_date_1)
  show ?case by (subst get_events_loop.simps) (simp add: g 0(1) 0(4))
next
  case (Suc n)
  have "nth_next_date self (Suc 0) obs = Some (c 0)" by (rule Suc.prems(2)) simp
  then have g: "get_next_date self obs = Inr (Some (c 0))" by (simp only: nth_next_date_1)
  have nl: "\<not> date_less h (c 0)" by (rule Suc.prems(3)) simp
  let ?self = "self\<lparr>self_last_occurence := c 0\<rparr>"
  have p1: "self_interval_end ?self = Some h" using Suc.prems(1) by simp
  have p2: "nth_next_date ?self (Suc k) (c 0) = Some (c (Suc k))" if "k \<le> n" for k
  proof -
    have "nth_next_date self (Suc (Suc k)) obs = Some (c (Suc k))"
      by (rule Suc.prems(2)) (use that in simp)
    then have "nth_next_date self (Suc k) (c 0) = Some (c (Suc k))"
      by (simp only: nth_next_date_Suc_shift [OF g])
    then show ?thesis by (simp only: nth_next_date_cursor)
  qed
  have p3: "\<not> date_less h (c (Suc k))" if "k < n" for k
    by (rule Suc.prems(3)) (use that in simp)
  have p4: "date_less h (c (Suc n))" by (rule Suc.prems(4))
  note ih = Suc.IH [where c = "\<lambda>k. c (Suc k)" and periods = "periods @ [c 0]",
      OF p1 p2 p3 p4]
  have fin: "(if n = 0 then ?self else ?self\<lparr>self_last_occurence := c (Suc (n - 1))\<rparr>)
      = self\<lparr>self_last_occurence := c n\<rparr>"
    by (cases n) simp_all
  have "get_events_loop self obs periods = get_events_loop ?self (c 0) (periods @ [c 0])"
    by (subst get_events_loop.simps) (simp add: g nl Suc.prems(1))
  also have "\<dots> = Some (Inr ((periods @ [c 0]) @ map (\<lambda>k. c (Suc k)) [0..<n]),
      self\<lparr>self_last_occurence := c n\<rparr>)"
    using ih by (simp only: fin)
  finally show ?case by (simp add: map_upt_Suc del: upt_Suc)
qed

lemma get_events_loop_returns:
  assumes "get_events_loop self0 obs0 periods0 = Some y0"
  shows "\<forall>h L self'. self_interval_end self0 = Some h \<longrightarrow> y0 = (Inr L, self') \<longrightarrow>
    (\<exists>n c. (\<forall>k\<le>n. nth_next_date self0 (Suc k) obs0 = Some (c k)) \<and>
       (\<forall>k<n. \<not> date_less h (c k)) \<and> date_less h (c n) \<and>
       L = periods0 @ map c [0..<n] \<and>
       self' = (if n = 0 then self0 else self0\<lparr>self_last_occurence := c (n - 1)\<rparr>))"
proof -
  let ?P = "\<lambda>self obs periods y.
    \<forall>h L self'. self_interval_end self = Some h \<longrightarrow> y = (Inr L, self') \<longrightarrow>
    (\<exists>n c. (\<forall>k\<le>n. nth_next_date self (Suc k) obs = Some (c k)) \<and>
       (\<forall>k<n. \<not> date_less h (c k)) \<and> date_less h (c n) \<and>
       L = periods @ map c [0..<n] \<and>
       self' = (if n = 0 then self else self\<lparr>self_last_occurence := c (n - 1)\<rparr>))"
  show ?thesis
  proof (rule get_events_loop.raw_induct [where P = ?P, OF _ assms])
    fix loop self obs periods y
    assume IH: "\<And>self obs periods y. loop self obs periods = Some y \<Longrightarrow> ?P self obs periods y"
      and body: "(case get_next_date self obs of Inl e \<Rightarrow> Some (Inl e, self)
        | Inr None \<Rightarrow> Some (Inl TypeError, self)
        | Inr (Some observed_date') \<Rightarrow>
            case self_interval_end self of None \<Rightarrow> Some (Inl TypeError, self)
            | Some interval_end \<Rightarrow>
                if date_less interval_end observed_date'
                then Some (Inr periods, self)
                else loop (self\<lparr>self_last_occurence := observed_date'\<rparr>)
                      observed_date' (periods @ [observed_date'])) = Some y"
    show "?P self obs periods y"
    proof (intro allI impI)
      fix h L self'
      assume e: "self_interval_end self = Some h" and y: "y = (Inr L, self')"
      show "\<exists>n c. (\<forall>k\<le>n. nth_next_date self (Suc k) obs = Some (c k)) \<and>
         (\<forall>k<n. \<not> date_less h (c k)) \<and> date_less h (c n) \<and>
         L = periods @ map c [0..<n] \<and>
         self' = (if n = 0 then self else self\<lparr>self_last_occurence := c (n - 1)\<rparr>)"
      proof (cases "get_next_date self obs")
        case (Inl err)
        with body y show ?thesis by simp
      next
        case (Inr r)
        show ?thesis
        proof (cases r)
          case None
          with Inr body y show ?thesis by simp
        next
          case (Some d)
          note g = Inr [unfolded Some]
          show ?thesis
          proof (cases "date_less h d")
            case True
            with body g e y have "L = periods" "self' = self" by simp_all
            moreover have "nth_next_date self (Suc 0) obs = Some d" using g by simp
            ultimately show ?thesis using True
              by (intro exI [of _ 0] exI [of _ "\<lambda>_. d"]) simp
          next
            case False
            with body g e have rec:
              "loop (self\<lparr>self_last_occurence := d\<rparr>) d (periods @ [d]) = Some y"
              by simp
            have e': "self_interval_end (self\<lparr>self_last_occurence := d\<rparr>) = Some h"
              using e by simp
            note i1 = IH [OF rec]
            note i2 = i1 [THEN spec [where x = h], THEN spec [where x = L],
                THEN spec [where x = self']]
            note ih = i2 [THEN mp, OF e', THEN mp, OF y]
            from ih obtain n where "\<exists>c.
              (\<forall>k\<le>n. nth_next_date (self\<lparr>self_last_occurence := d\<rparr>) (Suc k) d = Some (c k)) \<and>
              (\<forall>k<n. \<not> date_less h (c k)) \<and> date_less h (c n) \<and>
              L = (periods @ [d]) @ map c [0..<n] \<and>
              self' = (if n = 0 then self\<lparr>self_last_occurence := d\<rparr>
                   else self\<lparr>self_last_occurence := d\<rparr>\<lparr>self_last_occurence := c (n - 1)\<rparr>)" ..
            then obtain c where abc:
              "(\<forall>k\<le>n. nth_next_date (self\<lparr>self_last_occurence := d\<rparr>) (Suc k) d = Some (c k)) \<and>
              (\<forall>k<n. \<not> date_less h (c k)) \<and> date_less h (c n) \<and>
              L = (periods @ [d]) @ map c [0..<n] \<and>
              self' = (if n = 0 then self\<lparr>self_last_occurence := d\<rparr>
                   else self\<lparr>self_last_occurence := d\<rparr>\<lparr>self_last_occurence := c (n - 1)\<rparr>)" ..
            note a = abc [THEN conjunct1]
            note b = abc [THEN conjunct2, THEN conjunct1]
            note c = abc [THEN conjunct2, THEN conjunct2, THEN conjunct1]
            note l = abc [THEN conjunct2, THEN conjunct2, THEN conjunct2, THEN conjunct1]
            note s = abc [THEN conjunct2, THEN conjunct2, THEN conjunct2, THEN conjunct2]
            define c' where "c' k = (case k of 0 \<Rightarrow> d | Suc j \<Rightarrow> c j)" for k
            have a': "\<forall>k\<le>Suc n. nth_next_date self (Suc k) obs = Some (c' k)"
            proof (intro allI impI)
              fix k assume k: "k \<le> Suc n"
              show "nth_next_date self (Suc k) obs = Some (c' k)"
              proof (cases k)
                case 0
                then show ?thesis using g by (simp add: c'_def)
              next
                case (Suc j)
                with k a have "nth_next_date self (Suc j) d = Some (c j)"
                  by (simp only: nth_next_date_cursor)
                then show ?thesis using g Suc by (simp add: c'_def)
              qed
            qed
            have b': "\<forall>k<Suc n. \<not> date_less h (c' k)"
            proof (intro allI impI)
              fix k assume "k < Suc n"
              then show "\<not> date_less h (c' k)" using b False by (cases k) (simp_all add: c'_def)
            qed
            have c'': "date_less h (c' (Suc n))" using c by (simp add: c'_def)
            have l': "L = periods @ map c' [0..<Suc n]"
              using l by (simp add: map_upt_Suc c'_def del: upt_Suc)
            have s': "self' = (if Suc n = 0 then self
                else self\<lparr>self_last_occurence := c' (Suc n - 1)\<rparr>)"
              using s by (cases n) (simp_all add: c'_def)
            from a' b' c'' l' s' show ?thesis by blast
          qed
        qed
      qed
    qed
  qed
qed

lemma get_events_returns_iff:
  "get_events self (Some h) = Some (Inr L, self') \<longleftrightarrow>
     (\<forall>k<length L. nth_next_date self (Suc k) (self_last_occurence self) = Some (L ! k) \<and>
        date_le (L ! k) h) \<and>
     (\<exists>d. nth_next_date self (Suc (length L)) (self_last_occurence self) = Some d \<and>
        date_less h d) \<and>
     self' = self\<lparr>self_last_occurence := (if L = [] then self_last_occurence self else last L),
                  self_interval_end := Some h\<rparr>"
    (is "?lhs \<longleftrightarrow> ?rhs")
proof
  let ?s0 = "self\<lparr>self_interval_end := Some h\<rparr>"
  let ?lo = "self_last_occurence self"
  have ge: "get_events self (Some h) = get_events_loop ?s0 ?lo []"
    by (simp add: get_events_def set_interval_end_def)
  {
    assume ?lhs
    then have run: "get_events_loop ?s0 ?lo [] = Some (Inr L, self')" by (simp only: ge)
    have e: "self_interval_end ?s0 = Some h" by simp
    note r1 = get_events_loop_returns [OF run, THEN spec [where x = h], THEN spec [where x = L],
        THEN spec [where x = self'], THEN mp, OF e, THEN mp, OF refl]
    from r1 obtain n where "\<exists>c. (\<forall>k\<le>n. nth_next_date ?s0 (Suc k) ?lo = Some (c k)) \<and>
       (\<forall>k<n. \<not> date_less h (c k)) \<and> date_less h (c n) \<and>
       L = [] @ map c [0..<n] \<and>
       self' = (if n = 0 then ?s0 else ?s0\<lparr>self_last_occurence := c (n - 1)\<rparr>)" ..
    then obtain c where abc: "(\<forall>k\<le>n. nth_next_date ?s0 (Suc k) ?lo = Some (c k)) \<and>
       (\<forall>k<n. \<not> date_less h (c k)) \<and> date_less h (c n) \<and>
       L = [] @ map c [0..<n] \<and>
       self' = (if n = 0 then ?s0 else ?s0\<lparr>self_last_occurence := c (n - 1)\<rparr>)" ..
    have a: "\<And>k. k \<le> n \<Longrightarrow> nth_next_date self (Suc k) ?lo = Some (c k)"
      using abc [THEN conjunct1] by (simp only: nth_next_date_cursor)
    note b = abc [THEN conjunct2, THEN conjunct1]
    note c = abc [THEN conjunct2, THEN conjunct2, THEN conjunct1]
    have l: "L = map c [0..<n]"
      using abc [THEN conjunct2, THEN conjunct2, THEN conjunct2, THEN conjunct1] by simp
    note s = abc [THEN conjunct2, THEN conjunct2, THEN conjunct2, THEN conjunct2]
    have len: "length L = n" by (simp add: l)
    have nth: "L ! k = c k" if "k < n" for k using that by (simp add: l)
    have p1: "\<forall>k<length L. nth_next_date self (Suc k) ?lo = Some (L ! k) \<and> date_le (L ! k) h"
      using a b by (simp add: len nth date_le_iff del: nth_next_date.simps)
    have p2: "\<exists>d. nth_next_date self (Suc (length L)) ?lo = Some d \<and> date_less h d"
      using a [of n] c by (simp add: len del: nth_next_date.simps)
    have p3: "self' = self\<lparr>self_last_occurence := (if L = [] then ?lo else last L),
                  self_interval_end := Some h\<rparr>"
    proof (cases n)
      case 0
      then show ?thesis using s l by simp
    next
      case (Suc j)
      then have "last L = c j" by (simp add: l)
      moreover have "L \<noteq> []" using Suc len by auto
      ultimately show ?thesis using s Suc by simp
    qed
    from p1 p2 p3 show ?rhs by blast
  }
  {
    assume r: ?rhs
    then obtain d where d: "nth_next_date self (Suc (length L)) ?lo = Some d" "date_less h d"
      by blast
    define c where "c k = (if k < length L then L ! k else d)" for k
    have e: "self_interval_end ?s0 = Some h" by simp
    have q1: "nth_next_date ?s0 (Suc k) ?lo = Some (c k)" if "k \<le> length L" for k
    proof -
      have "nth_next_date self (Suc k) ?lo = Some (c k)"
      proof (cases "k < length L")
        case True
        with r show ?thesis by (simp add: c_def del: nth_next_date.simps)
      next
        case False
        with that have "k = length L" by simp
        with d show ?thesis by (simp add: c_def del: nth_next_date.simps)
      qed
      then show ?thesis by (simp only: nth_next_date_cursor)
    qed
    have q2: "\<not> date_less h (c k)" if "k < length L" for k
      using that r by (simp add: c_def date_le_iff)
    have q3: "date_less h (c (length L))" using d by (simp add: c_def)
    note run = get_events_loop_run [where periods = "[]", OF e q1 q2 q3]
    have m: "map c [0..<length L] = L"
      by (rule nth_equalityI) (simp_all add: c_def)
    have f: "(if length L = 0 then ?s0 else ?s0\<lparr>self_last_occurence := c (length L - 1)\<rparr>) = self'"
    proof (cases "L = []")
      case True
      then show ?thesis using r by simp
    next
      case False
      then have "c (length L - 1) = last L" by (simp add: c_def last_conv_nth)
      then show ?thesis using r False by simp
    qed
    have "get_events_loop ?s0 ?lo [] = Some (Inr L, self')"
      using run by (simp only: f m append_Nil)
    then show ?lhs by (simp only: ge)
  }
qed

lemmas date_eval =
  toordinal_def ymd2ord_def days_before_year_def days_before_month_def
  days_before_month_tab_def is_leap_def fromordinal_def ord2md_def Let_def date_add_def
  MAXORDINAL_def date_less_def date_le_def date_weekday_def valid_date_def days_in_month_def
  date_replace_def

lemma RecurringEvent_fields:
  assumes "RecurringEvent lo recurs interval day ordinal weekday fo = Inr self"
  shows "self_recurs self = recurs" "self_interval self = interval"
    "self_day self = or_none day" "self_ordinal self = or_none ordinal"
    "self_weekday self = or_none weekday" "self_interval_end self = None"
    "check_consistency (if lo \<noteq> PyNone then lo else fo) recurs (or_none day)
       (or_none ordinal) (or_none weekday) = Inr ()"
  using assms
  by (auto simp: RecurringEvent_def Let_def split: sum.splits pyobj.splits)

lemma daily_step:
  "get_next_date \<lparr>self_last_occurence = Date 2023 6 30, self_recurs = 1, self_interval = 1,
      self_day = None, self_ordinal = None, self_weekday = None, self_interval_end = None\<rparr>
     (Date 2023 m d) = map_sum id Some (date_add (Date 2023 m d) 1)"
  by (simp add: get_next_date_def truthy_def get_daily_period_def)

lemma daily_dates:
  "date_add (Date 2023 6 30) 1 = Inr (Date 2023 7 1)"
  "date_add (Date 2023 7 1) 1 = Inr (Date 2023 7 2)"
  "date_add (Date 2023 7 2) 1 = Inr (Date 2023 7 3)"
  "date_add (Date 2023 7 3) 1 = Inr (Date 2023 7 4)"
  by (simp_all add: date_eval)

lemma daily_events:
  "get_events \<lparr>self_last_occurence = Date 2023 6 30, self_recurs = 1, self_interval = 1,
      self_day = None, self_ordinal = None, self_weekday = None, self_interval_end = None\<rparr>
     (Some (Date 2023 7 3)) =
   Some (Inr [Date 2023 7 1, Date 2023 7 2, Date 2023 7 3],
     \<lparr>self_last_occurence = Date 2023 7 3, self_recurs = 1, self_interval = 1,
      self_day = None, self_ordinal = None, self_weekday = None,
      self_interval_end = Some (Date 2023 7 3)\<rparr>)"
  by (subst get_events_returns_iff)
    (simp add: All_less_Suc daily_step daily_dates date_le_def date_less_def)

subsection \<open>What get_events returns\<close>

lemma get_events_loop_diverges:
  assumes "get_next_date self0 obs0 = Inr (Some obs0)" "self_interval_end self0 = Some h"
    "\<not> date_less h obs0"
  shows "get_events_loop self0 obs0 periods0 = None"
proof (rule ccontr)
  assume "get_events_loop self0 obs0 periods0 \<noteq> None"
  then obtain y0 where r: "get_events_loop self0 obs0 periods0 = Some y0" by auto
  let ?P = "\<lambda>self obs (periods :: date list) (y :: (error + date list) \<times> recurring_event).
    \<not> (get_next_date self obs = Inr (Some obs) \<and> self_interval_end self = Some h \<and>
       \<not> date_less h obs)"
  have "?P self0 obs0 periods0 y0"
  proof (rule get_events_loop.raw_induct [where P = ?P, OF _ r])
    fix loop self obs periods y
    assume IH: "\<And>self obs periods y. loop self obs periods = Some y \<Longrightarrow> ?P self obs periods y"
      and body: "(case get_next_date self obs of Inl e \<Rightarrow> Some (Inl e, self)
        | Inr None \<Rightarrow> Some (Inl TypeError, self)
        | Inr (Some observed_date') \<Rightarrow>
            case self_interval_end self of None \<Rightarrow> Some (Inl TypeError, self)
            | Some interval_end \<Rightarrow>
                if date_less interval_end observed_date'
                then Some (Inr periods, self)
                else loop (self\<lparr>self_last_occurence := observed_date'\<rparr>)
                      observed_date' (periods @ [observed_date'])) = Some y"
    show "?P self obs periods y"
    proof
      assume inv: "get_next_date self obs = Inr (Some obs) \<and> self_interval_end self = Some h \<and>
        \<not> date_less h obs"
      with body have "loop (self\<lparr>self_last_occurence := obs\<rparr>) obs (periods @ [obs]) = Some y"
        by simp
      from IH [OF this] inv show False by simp
    qed
  qed
  with assms show False by simp
qed

text \<open>
  C2, as stated: whenever each evaluator step yields a date, \<^verbatim>\<open>get_events\<close> returns the
  maximal prefix of the chain that stays at or below the horizon. The constructor accepts
  the daily rule with interval 0; each of its steps yields the date it was given, 2023-06-30,
  which is not after the horizon 2023-07-03, so the loop appends it for ever and the call
  returns nothing.
\<close>

theorem get_events_never_returns_counterexample:
  "RecurringEvent (PyDate (Date 2023 6 30)) 1 0 None None None PyNone =
     Inr \<lparr>self_last_occurence = Date 2023 6 30, self_recurs = 1, self_interval = 0,
          self_day = None, self_ordinal = None, self_weekday = None,
          self_interval_end = None\<rparr> \<and>
   get_next_date \<lparr>self_last_occurence = Date 2023 6 30, self_recurs = 1, self_interval = 0,
          self_day = None, self_ordinal = None, self_weekday = None,
          self_interval_end = None\<rparr> (Date 2023 6 30) = Inr (Some (Date 2023 6 30)) \<and>
   date_le (Date 2023 6 30) (Date 2023 7 3) \<and>
   get_events \<lparr>self_last_occurence = Date 2023 6 30, self_recurs = 1, self_interval = 0,
          self_day = None, self_ordinal = None, self_weekday = None,
          self_interval_end = None\<rparr> (Some (Date 2023 7 3)) = None"
proof -
  let ?r = "\<lparr>self_last_occurence = Date 2023 6 30, self_recurs = 1, self_interval = 0,
          self_day = None, self_ordinal = None, self_weekday = None,
          self_interval_end = None\<rparr>"
  have c: "RecurringEvent (PyDate (Date 2023 6 30)) 1 0 None None None PyNone = Inr ?r"
    by (simp add: RecurringEvent_def check_consistency_def or_none_def truthy_def)
  have g: "get_next_date ?r (Date 2023 6 30) = Inr (Some (Date 2023 6 30))"
    by (simp add: get_next_date_def truthy_def get_daily_period_def date_eval)
  have g': "get_next_date (?r\<lparr>self_interval_end := Some (Date 2023 7 3)\<rparr>) (Date 2023 6 30)
      = Inr (Some (Date 2023 6 30))"
    using g by (simp only: get_next_date_cursor)
  have l: "date_le (Date 2023 6 30) (Date 2023 7 3)" by (simp add: date_le_def date_less_def)
  have "get_events_loop (?r\<lparr>self_interval_end := Some (Date 2023 7 3)\<rparr>) (Date 2023 6 30) []
      = None"
  proof (rule get_events_loop_diverges [OF g'])
    show "self_interval_end (?r\<lparr>self_interval_end := Some (Date 2023 7 3)\<rparr>)
        = Some (Date 2023 7 3)" by simp
    show "\<not> date_less (Date 2023 7 3) (Date 2023 6 30)" by (simp add: date_less_def)
  qed
  then have e: "get_events ?r (Some (Date 2023 7 3)) = None"
    by (simp add: get_events_def set_interval_end_def)
  from c g l e show ?thesis by simp
qed

text \<open>
  C2, amended: for every rule and horizon \<open>h\<close> for which the evaluator steps yield dates
  up to and including a first date that exceeds \<open>h\<close>, \<^verbatim>\<open>get_events\<close> returns exactly the
  maximal prefix of the chain of successive next dates, starting from the last
  occurrence, whose elements are all at most \<open>h\<close>: the call returns the list \<open>L\<close> exactly
  when the \<open>k\<close>-th element of \<open>L\<close> is the result of \<open>k + 1\<close> successive calls of
  \<^verbatim>\<open>get_next_date\<close> and is at most \<open>h\<close>, in the order generated, and the next date of the
  chain, which the loop discards, exists and is greater than \<open>h\<close>; the cursor is left on
  the last date returned. When the steps yield dates that never exceed \<open>h\<close> the call does
  not return.
\<close>

theorem get_events_maximal_prefix:
  "get_events self (Some h) = Some (Inr L, self') \<longleftrightarrow>
     (\<forall>k<length L. nth_next_date self (Suc k) (self_last_occurence self) = Some (L ! k) \<and>
        date_le (L ! k) h) \<and>
     (\<exists>d. nth_next_date self (Suc (length L)) (self_last_occurence self) = Some d \<and>
        date_less h d) \<and>
     self' = self\<lparr>self_last_occurence := (if L = [] then self_last_occurence self else last L),
                  self_interval_end := Some h\<rparr>"
  by (rule get_events_returns_iff)

theorem get_events_maximal_prefix_witness:
  "get_events \<lparr>self_last_occurence = Date 2023 6 30, self_recurs = 1, self_interval = 1,
      self_day = None, self_ordinal = None, self_weekday = None, self_interval_end = None\<rparr>
     (Some (Date 2023 7 3)) =
   Some (Inr [Date 2023 7 1, Date 2023 7 2, Date 2023 7 3],
     \<lparr>self_last_occurence = Date 2023 7 3, self_recurs = 1, self_interval = 1,
      self_day = None, self_ordinal = None, self_weekday = None,
      self_interval_end = Some (Date 2023 7 3)\<rparr>)"
  by (subst get_events_maximal_prefix)
    (simp add: All_less_Suc daily_step daily_dates date_le_def date_less_def)

text \<open>
  C9. A call of \<^verbatim>\<open>get_events\<close> that returns the list \<open>L\<close> leaves the cursor on the last
  element of \<open>L\<close>, or where it was when \<open>L\<close> is empty, sets the horizon, and changes none
  of \<^verbatim>\<open>_recurs\<close>, \<^verbatim>\<open>_interval\<close>, \<^verbatim>\<open>_day\<close>, \<^verbatim>\<open>_ordinal\<close> and \<^verbatim>\<open>_weekday\<close>; a second call with
  the same horizon on the object as the first call left it returns the empty list and
  changes nothing.
\<close>

theorem get_events_moves_cursor_only:
  assumes "get_events self ho = Some (Inr L, self')"
  shows "self_last_occurence self' = (if L = [] then self_last_occurence self else last L) \<and>
    self_interval_end self' = ho \<and>
    self_recurs self' = self_recurs self \<and> self_interval self' = self_interval self \<and>
    self_day self' = self_day self \<and> self_ordinal self' = self_ordinal self \<and>
    self_weekday self' = self_weekday self \<and>
    get_events self' ho = Some (Inr [], self')"
proof (cases ho)
  case None
  with assms show ?thesis by (simp add: get_events_def set_interval_end_def)
next
  case (Some h)
  note r = assms [unfolded Some get_events_returns_iff]
  note p1 = r [THEN conjunct1]
  note p3 = r [THEN conjunct2, THEN conjunct2]
  from r obtain d where d: "nth_next_date self (Suc (length L)) (self_last_occurence self) = Some d"
    "date_less h d" by blast
  have lo: "nth_next_date self (length L) (self_last_occurence self) = Some (self_last_occurence self')"
  proof (cases "L = []")
    case True
    then show ?thesis using p3 by simp
  next
    case False
    then obtain j where j: "length L = Suc j" by (cases L) auto
    then have "nth_next_date self (Suc j) (self_last_occurence self) = Some (L ! j)"
      using p1 by (simp del: nth_next_date.simps)
    moreover have "last L = L ! j" using False j by (simp add: last_conv_nth)
    ultimately show ?thesis using False j p3 by (simp del: nth_next_date.simps)
  qed
  have "get_next_date self (self_last_occurence self') = Inr (Some d)"
    using d(1) unfolding nth_next_date_back [of self "length L"] lo
    by (simp split: sum.splits option.splits)
  then have g: "get_next_date self' (self_last_occurence self') = Inr (Some d)"
    by (subst p3) (simp only: get_next_date_cursor)
  have e: "self_interval_end self' = Some h" by (subst p3) simp
  have "get_events self' (Some h) = Some (Inr [], self')"
    unfolding get_events_returns_iff using g d(2) e by simp
  then show ?thesis using Some e by (simp add: p3)
qed

theorem get_events_moves_cursor_only_witness:
  "get_events \<lparr>self_last_occurence = Date 2023 7 3, self_recurs = 1, self_interval = 1,
      self_day = None, self_ordinal = None, self_weekday = None,
      self_interval_end = Some (Date 2023 7 3)\<rparr> (Some (Date 2023 7 3)) =
   Some (Inr [],
     \<lparr>self_last_occurence = Date 2023 7 3, self_recurs = 1, self_interval = 1,
      self_day = None, self_ordinal = None, self_weekday = None,
      self_interval_end = Some (Date 2023 7 3)\<rparr>)"
  using get_events_moves_cursor_only [OF daily_events] by simp

text \<open>
  C10. A rule that the constructor has accepted, with neither a weekday nor a day given
  (\<^verbatim>\<open>None\<close> or 0) and \<^verbatim>\<open>recurs\<close> 3 (weekly) or 4 (monthly), the monthly rule with only an
  ordinal among them: \<^verbatim>\<open>get_next_date\<close> falls through every branch and returns \<^verbatim>\<open>None\<close>,
  and \<^verbatim>\<open>get_events\<close> with a horizon raises \<^verbatim>\<open>TypeError\<close> when it compares that \<^verbatim>\<open>None\<close>
  with the horizon, having set the horizon and nothing else.
\<close>

theorem unmatched_shape_returns_None:
  assumes "RecurringEvent lo recurs interval day ordinal weekday fo = Inr self"
    and "\<not> truthy weekday" "\<not> truthy day" "recurs = 3 \<or> recurs = 4"
  shows "get_next_date self d = Inr None \<and>
    get_events self (Some h) = Some (Inl TypeError, self\<lparr>self_interval_end := Some h\<rparr>)"
proof -
  note f = RecurringEvent_fields [OF assms(1)]
  have g: "get_next_date self x = Inr None" for x
    using assms(2-4) by (auto simp: get_next_date_def f truthy_or_none)
  then have "get_next_date (self\<lparr>self_interval_end := Some h\<rparr>) (self_last_occurence self)
    = Inr None" by (simp only: get_next_date_cursor)
  then have "get_events_loop (self\<lparr>self_interval_end := Some h\<rparr>) (self_last_occurence self) []
    = Some (Inl TypeError, self\<lparr>self_interval_end := Some h\<rparr>)"
    by (subst get_events_loop.simps) simp
  then show ?thesis using g by (simp add: get_events_def set_interval_end_def)
qed

theorem unmatched_shape_returns_None_witness:
  "get_next_date \<lparr>self_last_occurence = Date 2023 1 31, self_recurs = 4, self_interval = 1,
      self_day = None, self_ordinal = Some 5, self_weekday = None, self_interval_end = None\<rparr>
     (Date 2023 1 31) = Inr None \<and>
   get_events \<lparr>self_last_occurence = Date 2023 1 31, self_recurs = 4, self_interval = 1,
      self_day = None, self_ordinal = Some 5, self_weekday = None, self_interval_end = None\<rparr>
     (Some (Date 2023 12 31)) =
   Some (Inl TypeError,
     \<lparr>self_last_occurence = Date 2023 1 31, self_recurs = 4, self_interval = 1,
      self_day = None, self_ordinal = Some 5, self_weekday = None,
      self_interval_end = Some (Date 2023 12 31)\<rparr>)"
proof -
  have c: "RecurringEvent (PyDate (Date 2023 1 31)) 4 1 None (Some 5) None PyNone =
    Inr \<lparr>self_last_occurence = Date 2023 1 31, self_recurs = 4, self_interval = 1,
      self_day = None, self_ordinal = Some 5, self_weekday = None, self_interval_end = None\<rparr>"
    by (simp add: RecurringEvent_def check_consistency_def or_none_def truthy_def)
  show ?thesis
    using unmatched_shape_returns_None [OF c, of "Date 2023 1 31" "Date 2023 12 31"]
    by (simp add: truthy_def)
qed

section \<open>Workdays\<close>

lemma weekend_not_at_end:
  assumes "t \<le> 3652059" "5 \<le> (t + 6) mod 7"
  shows "t + 2 \<le> (3652059::int)"
proof (rule ccontr)
  assume "\<not> t + 2 \<le> 3652059"
  with assms(1) have "t = 3652058 \<or> t = 3652059" by linarith
  with assms(2) show False by auto
qed

lemma get_next_workday_by_interval_cases:
  assumes "valid_date d" "date_add d n = Inr x"
  shows "(date_weekday x \<le> 4 \<longrightarrow> get_next_workday_by_interval d n = Inr x) \<and>
    (date_weekday x = 5 \<longrightarrow>
       (\<exists>r. get_next_workday_by_interval d n = Inr r \<and> valid_date r \<and>
            toordinal r = toordinal x + 2 \<and> date_weekday r = 0)) \<and>
    (date_weekday x = 6 \<longrightarrow>
       (\<exists>r. get_next_workday_by_interval d n = Inr r \<and> valid_date r \<and>
            toordinal r = toordinal x + 2 \<and> date_weekday r = 1))"
proof -
  note x = date_add_Inr [OF assms]
  note rx = toordinal_range [OF x(1)]
  have ok: "date_add x 2 = Inr (fromordinal (toordinal x + 2))" if "5 \<le> date_weekday x"
  proof (rule date_add_ok)
    show "1 \<le> toordinal x + 2" using rx by simp
    show "toordinal x + 2 \<le> MAXORDINAL"
      unfolding MAXORDINAL_def
      by (rule weekend_not_at_end) (use rx that in \<open>simp_all add: MAXORDINAL_def date_weekday_def\<close>)
  qed
  have a: "date_weekday x \<le> 4 \<longrightarrow> get_next_workday_by_interval d n = Inr x"
    by (simp add: get_next_workday_by_interval_def assms(2))
  have b: "\<exists>r. get_next_workday_by_interval d n = Inr r \<and> valid_date r \<and>
            toordinal r = toordinal x + 2 \<and> date_weekday r = (date_weekday x + 2) mod 7"
    if "5 \<le> date_weekday x"
  proof -
    note r = date_add_Inr [OF x(1) ok [OF that]]
    have "get_next_workday_by_interval d n = Inr (fromordinal (toordinal x + 2))"
      using that by (simp add: get_next_workday_by_interval_def assms(2) ok)
    moreover have "date_weekday (fromordinal (toordinal x + 2)) = (date_weekday x + 2) mod 7"
      by (rule date_weekday_add [OF x(1) ok [OF that]])
    ultimately show ?thesis using r by blast
  qed
  have c: "date_weekday x = 5 \<longrightarrow>
       (\<exists>r. get_next_workday_by_interval d n = Inr r \<and> valid_date r \<and>
            toordinal r = toordinal x + 2 \<and> date_weekday r = 0)"
    using b by auto
  have e: "date_weekday x = 6 \<longrightarrow>
       (\<exists>r. get_next_workday_by_interval d n = Inr r \<and> valid_date r \<and>
            toordinal r = toordinal x + 2 \<and> date_weekday r = 1)"
    using b by auto
  from a c e show ?thesis by blast
qed

text \<open>
  C4, as stated: when \<open>d + n\<close> falls on a Saturday or a Sunday the result is the Monday
  that follows. The code adds two days in both cases, so from a Sunday it returns the
  Tuesday: 2023-06-03 plus one day is Sunday 2023-06-04, and the result is Tuesday
  2023-06-06, not Monday 2023-06-05.
\<close>

theorem sunday_landing_counterexample:
  "date_add (Date 2023 6 3) 1 = Inr (Date 2023 6 4) \<and> date_weekday (Date 2023 6 4) = 6 \<and>
   date_weekday (Date 2023 6 5) = 0 \<and>
   get_next_workday_by_interval (Date 2023 6 3) 1 \<noteq> Inr (Date 2023 6 5) \<and>
   get_next_workday_by_interval (Date 2023 6 3) 1 = Inr (Date 2023 6 6) \<and>
   date_weekday (Date 2023 6 6) = 1"
  by (simp add: get_next_workday_by_interval_def date_eval)

text \<open>
  C4, amended: for every date \<open>d\<close> and interval \<open>n\<close> for which \<open>d + n\<close> is a date \<open>x\<close>:
  the result is \<open>x\<close> when \<open>x\<close> falls on Monday to Friday; when \<open>x\<close> falls on a Saturday
  the result is \<open>x\<close> plus two days, the Monday that follows; when \<open>x\<close> falls on a Sunday
  the result is \<open>x\<close> plus two days, the Tuesday that follows. The two days added never
  leave the range of dates.
\<close>

theorem get_next_workday_by_interval_lands:
  assumes "valid_date d" "date_add d n = Inr x"
  shows "(date_weekday x \<le> 4 \<longrightarrow> get_next_workday_by_interval d n = Inr x) \<and>
    (date_weekday x = 5 \<longrightarrow>
       (\<exists>r. get_next_workday_by_interval d n = Inr r \<and> valid_date r \<and>
            toordinal r = toordinal x + 2 \<and> date_weekday r = 0)) \<and>
    (date_weekday x = 6 \<longrightarrow>
       (\<exists>r. get_next_workday_by_interval d n = Inr r \<and> valid_date r \<and>
            toordinal r = toordinal x + 2 \<and> date_weekday r = 1))"
  by (rule get_next_workday_by_interval_cases [OF assms])

theorem get_next_workday_by_interval_lands_witness:
  "\<exists>r. get_next_workday_by_interval (Date 2023 6 2) 1 = Inr r \<and> valid_date r \<and>
       toordinal r = toordinal (Date 2023 6 3) + 2 \<and> date_weekday r = 0"
proof -
  have v: "valid_date (Date 2023 6 2)" by (simp add: date_eval)
  have a: "date_add (Date 2023 6 2) 1 = Inr (Date 2023 6 3)" by (simp add: date_eval)
  have w: "date_weekday (Date 2023 6 3) = 5" by (simp add: date_eval)
  from get_next_workday_by_interval_lands [OF v a] w show ?thesis by simp
qed

section \<open>The monthly day-of-month rule\<close>

lemma next_month_ord:
  assumes "1 \<le> m" "m \<le> 12"
  shows "toordinal (Date (if m < 12 then y else y + 1) (if m < 12 then m + 1 else 1) 1) =
         toordinal (Date y m 1) + days_in_month y m"
proof (cases "m < 12")
  case True
  then have "m \<le> 11" by simp
  from days_before_month_Suc [OF assms(1) this, of y] True show ?thesis
    by (simp add: toordinal_def ymd2ord_def)
next
  case False
  with assms have m: "m = 12" by simp
  have "days_in_month y 12 = 31" by (simp add: days_in_month_def)
  then show ?thesis
    using days_before_month_12 [of y] days_before_year_Suc [of y]
    by (simp add: m toordinal_def ymd2ord_def days_before_month_1)
qed

lemma day_in_month_ord:
  "toordinal (Date y m k) = toordinal (Date y m 1) + k - 1"
  by (simp add: toordinal_def ymd2ord_def)

lemma fromordinal_in_month:
  assumes "valid_date (Date y m 1)" "0 \<le> j" "j < days_in_month y m"
  shows "fromordinal (toordinal (Date y m 1) + j) = Date y m (j + 1)"
proof -
  have v: "valid_date (Date y m (j + 1))" using assms by (simp add: valid_date_def)
  have "toordinal (Date y m (j + 1)) = toordinal (Date y m 1) + j"
    by (simp add: toordinal_def ymd2ord_def)
  with fromordinal_toordinal [OF v] show ?thesis by simp
qed

lemma later_month_less:
  assumes "valid_date d" "valid_date s"
    and "year_of d * 12 + month_of d < year_of s * 12 + month_of s"
  shows "toordinal d < toordinal s"
proof (rule toordinal_less [OF assms(1,2)])
  have "year_of d < year_of s \<or> (year_of d = year_of s \<and> month_of d < month_of s)"
    using assms by (auto simp: valid_date_def)
  then show "date_less d s" by (auto simp: date_less_def)
qed

lemma get_day_period_result:
  assumes "valid_date sd" "self_day self = Some dy" "1 \<le> dy" "dy \<le> 31"
    and "1 \<le> self_interval self" "self_interval self \<le> 12"
    and "fst (rollover (year_of sd) (month_of sd) (self_interval self)) \<le> 9999"
  shows "get_day_period self sd =
    Inr (Date (fst (rollover (year_of sd) (month_of sd) (self_interval self)))
              (snd (rollover (year_of sd) (month_of sd) (self_interval self)))
              (min dy (days_in_month
                 (fst (rollover (year_of sd) (month_of sd) (self_interval self)))
                 (snd (rollover (year_of sd) (month_of sd) (self_interval self))))))"
proof -
  define ty where "ty = fst (rollover (year_of sd) (month_of sd) (self_interval self))"
  define tm where "tm = snd (rollover (year_of sd) (month_of sd) (self_interval self))"
  have m: "1 \<le> month_of sd" "month_of sd \<le> 12" "1 \<le> year_of sd"
    using assms(1) by (simp_all add: valid_date_def)
  have "month_of sd + self_interval self \<le> 24" using m assms(6) by linarith
  from rollover_range [OF m(1,2) assms(5) this, of "year_of sd"]
  have tm: "1 \<le> tm" "tm \<le> 12" by (simp_all add: tm_def)
  have ty: "1 \<le> ty" "ty \<le> 9999"
    using rollover_year_ge [OF m(1) assms(5), of "year_of sd"] m(3) assms(7)
    by (simp_all add: ty_def)
  have v1: "valid_date (Date ty tm 1)" using tm ty by (simp add: valid_date_def days_in_month_def)
  have unf: "get_day_period self sd =
     (case date_replace sd (Some ty) (Some tm) (Some dy) of
        Inr event \<Rightarrow> Inr event
      | Inl _ \<Rightarrow>
          (case date_replace sd (Some ty) (Some (tm + 1)) (Some 1) of
             Inl e \<Rightarrow> Inl e
           | Inr starting_date' \<Rightarrow> date_add starting_date' (- 1)))"
    unfolding get_day_period_rollover ty_def tm_def assms(2) by (rule refl)
  show ?thesis unfolding ty_def [symmetric] tm_def [symmetric]
  proof (cases "dy \<le> days_in_month ty tm")
    case True
    then have "valid_date (Date ty tm dy)" using tm ty assms(3) by (simp add: valid_date_def)
    then show "get_day_period self sd = Inr (Date ty tm (min dy (days_in_month ty tm)))"
      using True by (simp add: unf date_replace_def)
  next
    case False
    then have nv: "\<not> valid_date (Date ty tm dy)" by (simp add: valid_date_def)
    have "days_in_month ty tm < 31" using False assms(4) by simp
    then have "tm \<noteq> 12" by (auto simp: days_in_month_def)
    with tm have tm11: "tm < 12" by simp
    then have v2: "valid_date (Date ty (tm + 1) 1)"
      using tm ty by (simp add: valid_date_def days_in_month_def)
    have o: "toordinal (Date ty (tm + 1) 1) = toordinal (Date ty tm 1) + days_in_month ty tm"
      using next_month_ord [OF tm, of ty] tm11 by simp
    have dim: "28 \<le> days_in_month ty tm" by (rule days_in_month_bounds)
    have r: "1 \<le> toordinal (Date ty tm 1)" "toordinal (Date ty (tm + 1) 1) \<le> MAXORDINAL"
      using toordinal_range [OF v1] toordinal_range [OF v2] by simp_all
    have "date_add (Date ty (tm + 1) 1) (- 1) =
        Inr (fromordinal (toordinal (Date ty (tm + 1) 1) + - 1))"
      by (rule date_add_ok) (use r o dim in simp_all)
    also have "toordinal (Date ty (tm + 1) 1) + - 1
        = toordinal (Date ty tm 1) + (days_in_month ty tm - 1)"
      using o by simp
    also have "fromordinal \<dots> = Date ty tm (days_in_month ty tm - 1 + 1)"
      by (rule fromordinal_in_month [OF v1]) (use dim in simp_all)
    finally have "date_add (Date ty (tm + 1) 1) (- 1) = Inr (Date ty tm (days_in_month ty tm))"
      by simp
    then show "get_day_period self sd = Inr (Date ty tm (min dy (days_in_month ty tm)))"
      using False nv v2 by (simp add: unf date_replace_def)
  qed
qed

text \<open>
  C7, as stated: for every reference date the method returns a date of the target month.
  The target year can be 10000, which is no year of a date: from December 9999 with an
  interval of one month both calls of \<^verbatim>\<open>replace\<close> raise \<^verbatim>\<open>ValueError\<close>.
\<close>

theorem get_day_period_year_10000_counterexample:
  "get_day_period \<lparr>self_last_occurence = Date 9999 12 15, self_recurs = 4, self_interval = 1,
      self_day = Some 15, self_ordinal = None, self_weekday = None, self_interval_end = None\<rparr>
    (Date 9999 12 15) = Inl ValueError"
  by (simp add: get_day_period_def int_div13_def date_replace_def valid_date_def)

text \<open>
  C7, amended: for every rule with a day in 1..31 and an interval in 1..12 and every
  reference date whose target year is at most 9999, \<^verbatim>\<open>_get_day_period\<close> returns a date of
  the target month: the last day of that month when the month has fewer days than the
  rule's day, and the rule's day otherwise.
\<close>

theorem get_day_period_clamps_to_month_end:
  assumes "valid_date sd" "self_day self = Some dy" "1 \<le> dy" "dy \<le> 31"
    and "1 \<le> self_interval self" "self_interval self \<le> 12"
    and "fst (rollover (year_of sd) (month_of sd) (self_interval self)) \<le> 9999"
  shows "get_day_period self sd =
    Inr (Date (fst (rollover (year_of sd) (month_of sd) (self_interval self)))
              (snd (rollover (year_of sd) (month_of sd) (self_interval self)))
              (min dy (days_in_month
                 (fst (rollover (year_of sd) (month_of sd) (self_interval self)))
                 (snd (rollover (year_of sd) (month_of sd) (self_interval self))))))"
  by (rule get_day_period_result [OF assms])

theorem get_day_period_clamps_to_month_end_witness:
  "get_day_period \<lparr>self_last_occurence = Date 2023 1 31, self_recurs = 4, self_interval = 1,
      self_day = Some 31, self_ordinal = None, self_weekday = None, self_interval_end = None\<rparr>
    (Date 2023 1 31) = Inr (Date 2023 2 28)"
  using get_day_period_clamps_to_month_end [of "Date 2023 1 31"
      "\<lparr>self_last_occurence = Date 2023 1 31, self_recurs = 4, self_interval = 1,
        self_day = Some 31, self_ordinal = None, self_weekday = None,
        self_interval_end = None\<rparr>" 31]
  by (simp add: rollover_def int_div13_def date_eval)

section \<open>The last weekday of a month\<close>

lemma first_week_in_range:
  assumes "valid_date s" "day_of s = 1" "0 \<le> j" "j \<le> 6"
  shows "1 \<le> toordinal s + j" "toordinal s + j \<le> MAXORDINAL"
proof -
  have s: "s = Date (year_of s) (month_of s) 1" using assms(2) by (cases s) simp
  have v: "valid_date (Date (year_of s) (month_of s) 7)"
    using assms(1) days_in_month_bounds(1) [of "year_of s" "month_of s"]
    by (simp add: valid_date_def)
  have "toordinal (Date (year_of s) (month_of s) 7) = toordinal s + 6"
    by (subst (2) s) (simp add: toordinal_def ymd2ord_def)
  with toordinal_range [OF v] have "toordinal s + 6 \<le> MAXORDINAL" by simp
  then show "toordinal s + j \<le> MAXORDINAL" using assms(4) by simp
  show "1 \<le> toordinal s + j" using toordinal_range(1) [OF assms(1)] assms(3) by simp
qed

lemma replace_day_1:
  assumes "valid_date s"
  shows "date_replace s None None (Some 1) = Inr (Date (year_of s) (month_of s) 1)"
  using assms days_in_month_bounds(1) [of "year_of s" "month_of s"]
  by (simp add: date_replace_def valid_date_def)

lemma first_of_month_valid:
  assumes "valid_date s"
  shows "valid_date (Date (year_of s) (month_of s) 1)"
  using assms days_in_month_bounds(1) [of "year_of s" "month_of s"]
  by (simp add: valid_date_def)

lemma nth_weekday_low:
  assumes "valid_date s" "w \<le> 7" "ordn \<le> 4"
  shows "get_nth_weekday_of_month s ordn w =
    (case date_add (Date (year_of s) (month_of s) 1)
            ((w - 1 - date_weekday (Date (year_of s) (month_of s) 1)) mod 7) of
       Inl e \<Rightarrow> Inl e
     | Inr reference_date' \<Rightarrow> date_add reference_date' (7 * (ordn - 1)))"
  by (subst get_nth_weekday_of_month.simps)
    (use assms in \<open>simp add: replace_day_1 Let_def\<close>)

lemma first_weekday_of_month:
  assumes "valid_date s" "day_of s = 1" "w \<le> 7"
  shows "get_nth_weekday_of_month s 1 w =
    Inr (fromordinal (toordinal s + (w - 1 - date_weekday s) mod 7))"
proof -
  have s: "Date (year_of s) (month_of s) 1 = s" using assms(2) by (cases s) simp
  define adj where "adj = (w - 1 - date_weekday s) mod 7"
  have adj: "0 \<le> adj" "adj \<le> 6" by (simp_all add: adj_def)
  note r = first_week_in_range [OF assms(1,2) adj]
  have a: "date_add s adj = Inr (fromordinal (toordinal s + adj))"
    by (rule date_add_ok [OF r])
  note f = fromordinal_valid [OF r]
  have z: "date_add (fromordinal (toordinal s + adj)) 0 = Inr (fromordinal (toordinal s + adj))"
    by (rule date_add_zero [OF f(1)])
  have "get_nth_weekday_of_month s 1 w =
    (case date_add s adj of Inl e \<Rightarrow> Inl e
     | Inr reference_date' \<Rightarrow> date_add reference_date' (7 * (1 - 1)))"
    using nth_weekday_low [OF assms(1,3), of 1] by (simp only: s adj_def)
  then show ?thesis unfolding adj_def [symmetric] by (simp add: a z)
qed

lemma weekday_shift:
  "(t + (w - 1 - (t + 6) mod 7) mod 7 - 7 + 6) mod 7 = (w - 1) mod (7::int)"
proof -
  have "(t + (w - 1 - (t + 6) mod 7) mod 7 - 7 + 6) mod 7
      = ((t + 6) + (w - 1 - (t + 6) mod 7) mod 7 - 7) mod 7"
    by (simp add: algebra_simps)
  also have "\<dots> = ((t + 6) + (w - 1 - (t + 6) mod 7) mod 7) mod 7"
    by (metis mod_diff_right_eq mod_self diff_zero)
  also have "\<dots> = ((t + 6) + (w - 1 - (t + 6) mod 7)) mod 7"
    by (simp only: mod_add_right_eq)
  also have "\<dots> = ((t + 6) + (w - 1 - (t + 6))) mod 7"
    by (metis mod_add_right_eq mod_diff_right_eq)
  also have "\<dots> = (w - 1) mod 7" by simp
  finally show ?thesis .
qed

lemma next_month_replace:
  assumes "valid_date d" "year_of d < 9999 \<or> month_of d < 12"
  shows "(if month_of d < 12
          then date_replace d None (Some (month_of d + 1)) (Some 1)
          else date_replace d (Some (year_of d + 1)) (Some 1) (Some 1)) =
         Inr (Date (if month_of d < 12 then year_of d else year_of d + 1)
                   (if month_of d < 12 then month_of d + 1 else 1) 1)"
    and "valid_date (Date (if month_of d < 12 then year_of d else year_of d + 1)
                   (if month_of d < 12 then month_of d + 1 else 1) 1)"
proof -
  have b: "1 \<le> days_in_month yy mm" for yy mm
    using days_in_month_bounds(1) [of yy mm] by simp
  show "valid_date (Date (if month_of d < 12 then year_of d else year_of d + 1)
                   (if month_of d < 12 then month_of d + 1 else 1) 1)"
    using assms b by (cases "month_of d < 12") (simp_all add: valid_date_def)
  then show "(if month_of d < 12
          then date_replace d None (Some (month_of d + 1)) (Some 1)
          else date_replace d (Some (year_of d + 1)) (Some 1) (Some 1)) =
         Inr (Date (if month_of d < 12 then year_of d else year_of d + 1)
                   (if month_of d < 12 then month_of d + 1 else 1) 1)"
    by (cases "month_of d < 12") (simp_all add: date_replace_def Let_def)
qed

lemma last_weekday_of_month_result:
  assumes "valid_date d" "w \<le> 7" "year_of d < 9999 \<or> month_of d < 12"
  shows "\<exists>r f. get_nth_weekday_of_month d 5 w = Inr r \<and> valid_date r \<and>
    year_of r = year_of d \<and> month_of r = month_of d \<and>
    date_weekday r = (w - 1) mod 7 \<and>
    days_in_month (year_of d) (month_of d) < day_of r + 7 \<and>
    get_nth_weekday_of_month
      (Date (if month_of d < 12 then year_of d else year_of d + 1)
            (if month_of d < 12 then month_of d + 1 else 1) 1) 1 w = Inr f \<and>
    date_add f (- 7) = Inr r"
proof -
  define y where "y = year_of d"
  define m where "m = month_of d"
  define nm where "nm = Date (if m < 12 then y else y + 1) (if m < 12 then m + 1 else 1) 1"
  define adj where "adj = (w - 1 - date_weekday nm) mod 7"
  define dim where "dim = days_in_month y m"
  define f where "f = fromordinal (toordinal nm + adj)"
  define r where "r = Date y m (dim + adj - 6)"
  have mm: "1 \<le> m" "m \<le> 12" using assms(1) by (simp_all add: valid_date_def m_def)
  have rep: "(if month_of d < 12
          then date_replace d None (Some (month_of d + 1)) (Some 1)
          else date_replace d (Some (year_of d + 1)) (Some 1) (Some 1)) = Inr nm"
    unfolding nm_def y_def m_def by (rule next_month_replace(1) [OF assms(1,3)])
  have vnm: "valid_date nm"
    unfolding nm_def y_def m_def by (rule next_month_replace(2) [OF assms(1,3)])
  have dnm: "day_of nm = 1" by (simp add: nm_def)
  have adj: "0 \<le> adj" "adj \<le> 6" by (simp_all add: adj_def)
  have dim: "28 \<le> dim" "dim \<le> 31" unfolding dim_def by (rule days_in_month_bounds)+
  have v1: "valid_date (Date y m 1)"
    unfolding y_def m_def by (rule first_of_month_valid [OF assms(1)])
  have fw: "get_nth_weekday_of_month nm 1 w = Inr f"
    unfolding f_def adj_def by (rule first_weekday_of_month [OF vnm dnm assms(2)])
  note rf = first_week_in_range [OF vnm dnm adj]
  note vf = fromordinal_valid [OF rf, folded f_def]
  have onm: "toordinal nm = toordinal (Date y m 1) + dim"
    unfolding nm_def dim_def by (rule next_month_ord [OF mm])
  have tr: "toordinal f + - 7 = toordinal (Date y m 1) + (dim + adj - 7)"
    using vf(2) onm by simp
  have rr: "1 \<le> toordinal f + - 7" "toordinal f + - 7 \<le> MAXORDINAL"
    using tr toordinal_range(1) [OF v1] dim adj toordinal_range(2) [OF vf(1)] by simp_all
  have "fromordinal (toordinal (Date y m 1) + (dim + adj - 7)) = Date y m (dim + adj - 7 + 1)"
    by (rule fromordinal_in_month [OF v1]) (use dim adj in \<open>simp_all add: dim_def\<close>)
  then have fr: "fromordinal (toordinal f + - 7) = r" unfolding tr r_def by simp
  have bk: "date_add f (- 7) = Inr r"
    using date_add_ok [OF rr] by (simp only: fr)
  have vr: "valid_date r"
    using v1 dim adj by (simp add: r_def valid_date_def dim_def)
  have tor: "toordinal r = toordinal nm + adj - 7"
    using date_add_Inr(2) [OF vf(1) bk] vf(2) by simp
  have wr: "date_weekday r = (w - 1) mod 7"
    unfolding date_weekday_def [of r] tor adj_def date_weekday_def [of nm]
    by (rule weekday_shift)
  have res: "get_nth_weekday_of_month d 5 w = Inr r"
    by (subst get_nth_weekday_of_month.simps) (use assms(2) in \<open>simp add: rep fw bk\<close>)
  have "year_of r = year_of d" "month_of r = month_of d" by (simp_all add: r_def y_def m_def)
  moreover have "days_in_month (year_of d) (month_of d) < day_of r + 7"
    using adj by (simp add: r_def dim_def y_def m_def)
  moreover have "get_nth_weekday_of_month
      (Date (if month_of d < 12 then year_of d else year_of d + 1)
            (if month_of d < 12 then month_of d + 1 else 1) 1) 1 w = Inr f"
    using fw unfolding nm_def y_def m_def .
  ultimately show ?thesis using res vr wr bk by blast
qed

text \<open>
  C8, as stated: for every date \<open>d\<close> the call with ordinal 5 returns the last occurrence
  of the weekday in the month of \<open>d\<close>, December with its rollover to January included.
  In December 9999 the first day of the following month is in the year 10000, and
  \<^verbatim>\<open>replace\<close> raises \<^verbatim>\<open>ValueError\<close>.
\<close>

theorem last_weekday_december_9999_counterexample:
  "get_nth_weekday_of_month (Date 9999 12 15) 5 1 = Inl ValueError"
  by (subst get_nth_weekday_of_month.simps) (simp add: date_replace_def valid_date_def)

text \<open>
  C8, amended: for every date \<open>d\<close> that is not in December 9999 and every weekday \<open>w\<close> in
  1..7, \<^verbatim>\<open>get_nth_weekday_of_month(d, 5, w)\<close> returns a date \<open>r\<close> of the month of \<open>d\<close> that
  falls on the weekday \<open>w\<close> (\<^verbatim>\<open>weekday()\<close> is \<open>w - 1\<close>) and is the last such date of the
  month (\<open>r\<close> plus seven days is beyond the month's last day), and \<open>r\<close> is the result of
  the call with ordinal 1 on the first day of the following month, minus seven days.
\<close>

theorem last_weekday_of_month:
  assumes "valid_date d" "1 \<le> w" "w \<le> 7" "year_of d < 9999 \<or> month_of d < 12"
  shows "\<exists>r f. get_nth_weekday_of_month d 5 w = Inr r \<and> valid_date r \<and>
    year_of r = year_of d \<and> month_of r = month_of d \<and>
    date_weekday r = w - 1 \<and>
    days_in_month (year_of d) (month_of d) < day_of r + 7 \<and>
    get_nth_weekday_of_month
      (Date (if month_of d < 12 then year_of d else year_of d + 1)
            (if month_of d < 12 then month_of d + 1 else 1) 1) 1 w = Inr f \<and>
    date_add f (- 7) = Inr r"
proof -
  have "(w - 1) mod 7 = w - 1" using assms(2,3) by simp
  with last_weekday_of_month_result [OF assms(1,3,4)] show ?thesis by simp
qed

theorem last_weekday_of_month_witness:
  "\<exists>r f. get_nth_weekday_of_month (Date 2023 12 5) 5 1 = Inr r \<and> valid_date r \<and>
    year_of r = 2023 \<and> month_of r = 12 \<and> date_weekday r = 0 \<and>
    days_in_month 2023 12 < day_of r + 7 \<and>
    get_nth_weekday_of_month (Date 2024 1 1) 1 1 = Inr f \<and> date_add f (- 7) = Inr r"
proof -
  have v: "valid_date (Date 2023 12 5)" by (simp add: date_eval)
  from last_weekday_of_month [OF v, of 1] show ?thesis by simp
qed

section \<open>The next date is later\<close>

lemma map_sum_Inr_Some: "map_sum id Some x = Inr (Some v) \<longleftrightarrow> x = Inr v"
  by (cases x) auto

lemma daily_later:
  assumes "valid_date d" "1 \<le> self_interval self" "get_daily_period self d = Inr d'"
  shows "valid_date d' \<and> toordinal d < toordinal d'"
  using date_add_Inr [OF assms(1), of "self_interval self" d'] assms(2,3)
  by (simp add: get_daily_period_def)

lemma workdaily_later:
  assumes "valid_date d" "1 \<le> self_interval self" "get_workdaily_period self d = Inr d'"
  shows "valid_date d' \<and> toordinal d < toordinal d'"
proof -
  from assms(3) have g: "get_next_workday_by_interval d (self_interval self) = Inr d'"
    by (simp add: get_workdaily_period_def split: if_splits)
  show ?thesis
  proof (cases "date_add d (self_interval self)")
    case (Inl e)
    with g show ?thesis by (simp add: get_next_workday_by_interval_def)
  next
    case (Inr x)
    note x = date_add_Inr [OF assms(1) Inr]
    show ?thesis
    proof (cases "date_weekday x > 4")
      case True
      with g Inr have "date_add x 2 = Inr d'" by (simp add: get_next_workday_by_interval_def)
      from date_add_Inr [OF x(1) this] x(2) assms(2) show ?thesis by simp
    next
      case False
      with g Inr have "d' = x" by (simp add: get_next_workday_by_interval_def)
      with x assms(2) show ?thesis by simp
    qed
  qed
qed

lemma weekly_later:
  assumes "valid_date d" "1 \<le> self_interval self" "\<not> truthy (self_ordinal self)"
    and "self_weekday self = Some w" "1 \<le> w"
    and "get_weekday_period self d = Inr d'"
  shows "valid_date d' \<and> toordinal d < toordinal d'"
proof (cases "date_add d (7 * self_interval self)")
  case (Inl e)
  with assms(3,6) show ?thesis by (simp add: get_weekday_period_def)
next
  case (Inr s)
  note s = date_add_Inr [OF assms(1) Inr]
  from assms(3,4,6) Inr have "date_add s (w - 1 - date_weekday s) = Inr d'"
    by (simp add: get_weekday_period_def get_next_weekday_def)
  note r = date_add_Inr [OF s(1) this]
  have "date_weekday s \<le> 6" by (rule date_weekday_range)
  with r s(2) assms(2,5) show ?thesis by simp
qed

lemma nth_weekday_ge:
  assumes "valid_date s" "day_of s = 1" "1 \<le> ordn"
    and "get_nth_weekday_of_month s ordn w = Inr d'"
  shows "valid_date d' \<and> toordinal s \<le> toordinal d'"
proof -
  have s: "Date (year_of s) (month_of s) 1 = s" using assms(2) by (cases s) simp
  have w: "w \<le> 7"
  proof (rule ccontr)
    assume "\<not> w \<le> 7"
    then have "get_nth_weekday_of_month s ordn w = Inl ValueError"
      by (subst get_nth_weekday_of_month.simps) simp
    with assms(4) show False by simp
  qed
  have o5: "ordn \<le> 5"
  proof (rule ccontr)
    assume "\<not> ordn \<le> 5"
    then have "get_nth_weekday_of_month s ordn w = Inl ValueError"
      by (subst get_nth_weekday_of_month.simps) simp
    with assms(4) show False by simp
  qed
  show ?thesis
  proof (cases "ordn = 5")
    case False
    with o5 have o4: "ordn \<le> 4" by simp
    note low = nth_weekday_low [OF assms(1) w o4, unfolded s]
    show ?thesis
    proof (cases "date_add s ((w - 1 - date_weekday s) mod 7)")
      case (Inl e)
      with low assms(4) show ?thesis by simp
    next
      case (Inr f)
      note f = date_add_Inr [OF assms(1) Inr]
      from low Inr assms(4) have "date_add f (7 * (ordn - 1)) = Inr d'" by simp
      note r = date_add_Inr [OF f(1) this]
      have "0 \<le> (w - 1 - date_weekday s) mod 7" by simp
      with r f(2) assms(3) show ?thesis by simp
    qed
  next
    case True
    show ?thesis
    proof (cases "year_of s < 9999 \<or> month_of s < 12")
      case False
      then have "date_replace s (Some (year_of s + 1)) (Some 1) (Some 1) = Inl ValueError"
        "\<not> month_of s < 12"
        by (simp_all add: date_replace_def valid_date_def)
      then have "get_nth_weekday_of_month s 5 w = Inl ValueError"
        by (subst get_nth_weekday_of_month.simps) (simp add: w)
      with assms(4) True show ?thesis by simp
    next
      case ok: True
      from last_weekday_of_month_result [OF assms(1) w ok] assms(4) True
      have v: "valid_date d'" and y: "year_of d' = year_of s" and m: "month_of d' = month_of s"
        by auto
      have "d' = Date (year_of s) (month_of s) (day_of d')" using y m by (cases d') simp
      then have "toordinal d' = toordinal (Date (year_of s) (month_of s) 1) + day_of d' - 1"
        using day_in_month_ord [of "year_of s" "month_of s" "day_of d'"] by simp
      moreover have "1 \<le> day_of d'" using v by (simp add: valid_date_def)
      ultimately show ?thesis using v by (simp add: s)
    qed
  qed
qed

lemma rollover_replace_later:
  assumes "valid_date d" "1 \<le> i"
    and "date_replace d (Some (fst (rollover (year_of d) (month_of d) i)))
           (Some (snd (rollover (year_of d) (month_of d) i))) (Some 1) = Inr s"
  shows "valid_date s" "day_of s = 1" "toordinal d < toordinal s"
proof -
  note r = date_replace_Inr [OF assms(3)]
  show "valid_date s" by (rule r(1))
  show "day_of s = 1" using r(4) by simp
  have "year_of s * 12 + month_of s = year_of d * 12 + month_of d + i"
    using r(2,3) rollover_months [of "year_of d" "month_of d" i] by simp
  with assms(2) have "year_of d * 12 + month_of d < year_of s * 12 + month_of s" by simp
  then show "toordinal d < toordinal s" by (rule later_month_less [OF assms(1) r(1)])
qed

lemma last_workday_ge:
  assumes "valid_date s" "day_of s = 1" "get_last_workday_of_month s = Inr d'"
  shows "valid_date d' \<and> toordinal s \<le> toordinal d'"
proof -
  define l where "l = Date (year_of s) (month_of s) (days_in_month (year_of s) (month_of s))"
  have s: "Date (year_of s) (month_of s) 1 = s" using assms(2) by (cases s) simp
  have dim: "28 \<le> days_in_month (year_of s) (month_of s)" by (rule days_in_month_bounds)
  have vl: "valid_date l" using assms(1) dim by (simp add: l_def valid_date_def)
  have rep: "date_replace s None None (Some (days_in_month (year_of s) (month_of s))) = Inr l"
    using vl by (simp add: date_replace_def l_def Let_def)
  have ol: "toordinal l = toordinal s + days_in_month (year_of s) (month_of s) - 1"
    using day_in_month_ord [of "year_of s" "month_of s" "days_in_month (year_of s) (month_of s)"]
    by (simp add: l_def s)
  show ?thesis
  proof (cases "date_weekday l = 5 \<or> date_weekday l = 6")
    case True
    with assms(3) have "date_add l (- (date_weekday l - 4)) = Inr d'"
      by (simp add: get_last_workday_of_month_def rep Let_def)
    note r = date_add_Inr [OF vl this]
    from True have "date_weekday l - 4 \<le> 2" by auto
    with r ol dim show ?thesis by simp
  next
    case False
    with assms(3) have "d' = l" by (simp add: get_last_workday_of_month_def rep Let_def)
    with vl ol dim show ?thesis by simp
  qed
qed

lemma first_workday_ge:
  assumes "valid_date s" "day_of s = 1" "get_first_workday_of_month s = Inr fw"
  shows "valid_date fw \<and> toordinal s \<le> toordinal fw"
proof -
  have s: "Date (year_of s) (month_of s) 1 = s" using assms(2) by (cases s) simp
  have rep: "date_replace s None None (Some 1) = Inr s"
    using replace_day_1 [OF assms(1)] by (simp only: s)
  show ?thesis
  proof (cases "date_weekday s = 5 \<or> date_weekday s = 6")
    case True
    with assms(3) have "date_add s (7 - date_weekday s) = Inr fw"
      by (simp add: get_first_workday_of_month_def rep Let_def)
    note r = date_add_Inr [OF assms(1) this]
    from True have "0 \<le> 7 - date_weekday s" by auto
    with r show ?thesis by simp
  next
    case False
    with assms(3) have "fw = s" by (simp add: get_first_workday_of_month_def rep Let_def)
    with assms(1) show ?thesis by simp
  qed
qed

lemma nth_workday_ge:
  assumes "valid_date s" "day_of s = 1" "\<forall>v. ordinal = Some v \<longrightarrow> 1 \<le> v"
    and "get_nth_workday_of_month s ordinal = Inr d'"
  shows "valid_date d' \<and> toordinal s \<le> toordinal d'"
proof (cases "get_first_workday_of_month s")
  case (Inl e)
  with assms(4) show ?thesis by (simp add: get_nth_workday_of_month_def)
next
  case (Inr fw)
  note fw = first_workday_ge [OF assms(1,2) Inr]
  show ?thesis
  proof (cases ordinal)
    case None
    with assms(4) Inr show ?thesis by (simp add: get_nth_workday_of_month_def)
  next
    case (Some v)
    with assms(3) have v: "1 \<le> v" by simp
    show ?thesis
    proof (cases "date_add fw (v - 1)")
      case (Inl e)
      with assms(4) Inr Some show ?thesis by (simp add: get_nth_workday_of_month_def)
    next
      case nw: (Inr nw)
      note n = date_add_Inr [OF fw [THEN conjunct1] nw]
      from assms(4) Inr Some nw
      have "date_add nw (if date_weekday fw + v - 1 > 4 then 2 else 0) = Inr d'"
        by (simp add: get_nth_workday_of_month_def Let_def)
      note r = date_add_Inr [OF n(1) this]
      from r n(2) fw v show ?thesis by (simp split: if_splits)
    qed
  qed
qed

lemma rollover_month_pos:
  assumes "1 \<le> m" "1 \<le> i"
  shows "1 \<le> snd (rollover y m i)"
proof -
  define q where "q = (m + i) div 13"
  have q: "0 \<le> q" "13 * q \<le> m + i"
    using assms by (simp_all add: q_def pos_imp_zdiv_nonneg_iff)
  have "snd (rollover y m i) = m + i - q * 12"
    using assms by (simp add: rollover_def int_div13_def Let_def q_def)
  with q assms show ?thesis by linarith
qed

lemma get_weekday_period_ordinal:
  assumes "truthy (self_ordinal self)"
  shows "get_weekday_period self d =
    (case date_replace d
            (Some (fst (rollover (year_of d) (month_of d) (self_interval self))))
            (Some (snd (rollover (year_of d) (month_of d) (self_interval self)))) (Some 1) of
       Inl e \<Rightarrow> Inl e
     | Inr s \<Rightarrow>
         (case self_weekday self of
            None \<Rightarrow> Inl TypeError
          | Some w \<Rightarrow> get_nth_weekday_of_month s (the (self_ordinal self)) w))"
  using assms by (simp add: get_weekday_period_def rollover_def Let_def)

lemma get_ordinal_workday_period_rollover:
  "get_ordinal_workday_period self d =
    (case date_replace d
            (Some (fst (rollover (year_of d) (month_of d) (self_interval self))))
            (Some (snd (rollover (year_of d) (month_of d) (self_interval self)))) (Some 1) of
       Inl e \<Rightarrow> Inl e
     | Inr s \<Rightarrow>
         if self_ordinal self = Some 5 then get_last_workday_of_month s
         else get_nth_workday_of_month s (self_ordinal self))"
  by (simp add: get_ordinal_workday_period_def rollover_def Let_def)

lemma monthly_weekday_later:
  assumes "valid_date d" "1 \<le> self_interval self" "truthy (self_ordinal self)"
    and "1 \<le> the (self_ordinal self)" "get_weekday_period self d = Inr d'"
  shows "valid_date d' \<and> toordinal d < toordinal d'"
proof (cases "date_replace d
            (Some (fst (rollover (year_of d) (month_of d) (self_interval self))))
            (Some (snd (rollover (year_of d) (month_of d) (self_interval self)))) (Some 1)")
  case (Inl e)
  with assms(5) show ?thesis by (simp add: get_weekday_period_ordinal [OF assms(3)])
next
  case (Inr s)
  note s = rollover_replace_later [OF assms(1,2) Inr]
  show ?thesis
  proof (cases "self_weekday self")
    case None
    with assms(5) Inr show ?thesis by (simp add: get_weekday_period_ordinal [OF assms(3)])
  next
    case (Some w)
    with assms(5) Inr have "get_nth_weekday_of_month s (the (self_ordinal self)) w = Inr d'"
      by (simp add: get_weekday_period_ordinal [OF assms(3)])
    from nth_weekday_ge [OF s(1,2) assms(4) this] s(3) show ?thesis by simp
  qed
qed

lemma ordinal_workday_later:
  assumes "valid_date d" "1 \<le> self_interval self"
    and "\<forall>v. self_ordinal self = Some v \<longrightarrow> 1 \<le> v"
    and "get_ordinal_workday_period self d = Inr d'"
  shows "valid_date d' \<and> toordinal d < toordinal d'"
proof (cases "date_replace d
            (Some (fst (rollover (year_of d) (month_of d) (self_interval self))))
            (Some (snd (rollover (year_of d) (month_of d) (self_interval self)))) (Some 1)")
  case (Inl e)
  with assms(4) show ?thesis by (simp add: get_ordinal_workday_period_rollover)
next
  case (Inr s)
  note s = rollover_replace_later [OF assms(1,2) Inr]
  show ?thesis
  proof (cases "self_ordinal self = Some 5")
    case True
    with assms(4) Inr have "get_last_workday_of_month s = Inr d'"
      by (simp add: get_ordinal_workday_period_rollover)
    from last_workday_ge [OF s(1,2) this] s(3) show ?thesis by simp
  next
    case False
    with assms(4) Inr have "get_nth_workday_of_month s (self_ordinal self) = Inr d'"
      by (simp add: get_ordinal_workday_period_rollover)
    from nth_workday_ge [OF s(1,2) assms(3) this] s(3) show ?thesis by simp
  qed
qed

lemma day_later:
  assumes "valid_date d" "1 \<le> self_interval self" "get_day_period self d = Inr d'"
  shows "valid_date d' \<and> toordinal d < toordinal d'"
proof -
  define ty where "ty = fst (rollover (year_of d) (month_of d) (self_interval self))"
  define tm where "tm = snd (rollover (year_of d) (month_of d) (self_interval self))"
  have m: "1 \<le> month_of d" using assms(1) by (simp add: valid_date_def)
  have tm1: "1 \<le> tm" unfolding tm_def by (rule rollover_month_pos [OF m assms(2)])
  have mon: "year_of d * 12 + month_of d < ty * 12 + tm"
    using rollover_months [of "year_of d" "month_of d" "self_interval self"] assms(2)
    by (simp add: ty_def tm_def)
  note unf = get_day_period_rollover [of self d, folded ty_def tm_def]
  show ?thesis
  proof (cases "date_replace d (Some ty) (Some tm) (self_day self)")
    case (Inr ev)
    with assms(3) have e: "d' = ev" by (simp add: unf)
    note r = date_replace_Inr [OF Inr]
    have "year_of d * 12 + month_of d < year_of ev * 12 + month_of ev"
      using mon r(2,3) by simp
    from later_month_less [OF assms(1) r(1) this] r(1) e show ?thesis by simp
  next
    case (Inl x)
    show ?thesis
    proof (cases "date_replace d (Some ty) (Some (tm + 1)) (Some 1)")
      case e2: (Inl e)
      with assms(3) Inl show ?thesis by (simp add: unf)
    next
      case (Inr s')
      with assms(3) Inl have a: "date_add s' (- 1) = Inr d'" by (simp add: unf)
      note r = date_replace_Inr [OF Inr]
      have s': "s' = Date ty (tm + 1) 1" using r(2,3,4) by (cases s') simp
      have tm11: "tm \<le> 11" using r(1) r(3) by (simp add: valid_date_def)
      have v1: "valid_date (Date ty tm 1)"
        using r(1) r(2) tm1 tm11 days_in_month_bounds(1) [of ty tm]
        by (simp add: valid_date_def)
      have o: "toordinal s' = toordinal (Date ty tm 1) + days_in_month ty tm"
        using next_month_ord [of tm ty] tm1 tm11 by (simp add: s')
      note q = date_add_Inr [OF r(1) a]
      have "year_of d * 12 + month_of d < year_of (Date ty tm 1) * 12 + month_of (Date ty tm 1)"
        using mon by simp
      note lt = later_month_less [OF assms(1) v1 this]
      have "28 \<le> days_in_month ty tm" by (rule days_in_month_bounds)
      with q o lt show ?thesis by simp
    qed
  qed
qed

lemma get_next_date_later:
  assumes "1 \<le> self_interval self"
    and "\<forall>w. self_weekday self = Some w \<longrightarrow> 0 \<le> w"
    and "\<forall>v. self_ordinal self = Some v \<longrightarrow> 1 \<le> v"
    and "valid_date d" "get_next_date self d = Inr (Some d')"
  shows "valid_date d' \<and> toordinal d < toordinal d'"
proof (cases "truthy (self_weekday self)")
  case True
  then obtain w where w: "self_weekday self = Some w" "w \<noteq> 0"
    by (cases "self_weekday self") (simp_all add: truthy_def)
  with assms(2) have w1: "1 \<le> w" by auto
  show ?thesis
  proof (cases "w < 8")
    case True
    with assms(5) \<open>truthy (self_weekday self)\<close> w
    have g: "get_weekday_period self d = Inr d'"
      by (simp add: get_next_date_def map_sum_Inr_Some)
    show ?thesis
    proof (cases "truthy (self_ordinal self)")
      case True
      then obtain v where v: "self_ordinal self = Some v" "v \<noteq> 0"
        by (cases "self_ordinal self") (simp_all add: truthy_def)
      with assms(3) have "1 \<le> the (self_ordinal self)" by auto
      from monthly_weekday_later [OF assms(4,1) True this g] show ?thesis .
    next
      case False
      from weekly_later [OF assms(4,1) False w(1) w1 g] show ?thesis .
    qed
  next
    case False
    with assms(5) \<open>truthy (self_weekday self)\<close> w
    have g: "get_ordinal_workday_period self d = Inr d'"
      by (simp add: get_next_date_def map_sum_Inr_Some)
    from ordinal_workday_later [OF assms(4,1,3) g] show ?thesis .
  qed
next
  case nw: False
  show ?thesis
  proof (cases "truthy (self_day self)")
    case True
    with assms(5) nw have "get_day_period self d = Inr d'"
      by (simp add: get_next_date_def map_sum_Inr_Some)
    from day_later [OF assms(4,1) this] show ?thesis .
  next
    case nd: False
    show ?thesis
    proof (cases "self_recurs self = 1")
      case True
      with assms(5) nw nd have "get_daily_period self d = Inr d'"
        by (simp add: get_next_date_def map_sum_Inr_Some)
      from daily_later [OF assms(4,1) this] show ?thesis .
    next
      case False
      with assms(5) nw nd have "get_workdaily_period self d = Inr d'"
        by (simp add: get_next_date_def map_sum_Inr_Some split: if_splits)
      from workdaily_later [OF assms(4,1) this] show ?thesis .
    qed
  qed
qed

text \<open>
  C1, as stated: for every rule that the constructor accepts, with a positive interval,
  a date that \<^verbatim>\<open>get_next_date\<close> produces is strictly after the reference date. The
  constructor does not check the range of the weekday: it accepts the weekly rule with
  interval 1 and weekday -6, and from Wednesday 2023-01-04 the week advance gives
  2023-01-11 and the snap \<^verbatim>\<open>weekday - 1 - cur_date.weekday()\<close> is -9 days, so the result
  2023-01-02 is before the reference date.
\<close>

theorem negative_weekday_counterexample:
  "RecurringEvent (PyDate (Date 2023 1 4)) 3 1 None None (Some (- 6)) PyNone =
     Inr \<lparr>self_last_occurence = Date 2023 1 4, self_recurs = 3, self_interval = 1,
          self_day = None, self_ordinal = None, self_weekday = Some (- 6),
          self_interval_end = None\<rparr> \<and>
   get_next_date \<lparr>self_last_occurence = Date 2023 1 4, self_recurs = 3, self_interval = 1,
          self_day = None, self_ordinal = None, self_weekday = Some (- 6),
          self_interval_end = None\<rparr> (Date 2023 1 4) = Inr (Some (Date 2023 1 2)) \<and>
   \<not> date_less (Date 2023 1 4) (Date 2023 1 2)"
proof -
  have a: "date_add (Date 2023 1 4) 7 = Inr (Date 2023 1 11)" by (simp add: date_eval)
  have b: "date_weekday (Date 2023 1 11) = 2" by (simp add: date_eval)
  have c: "date_add (Date 2023 1 11) (- 9) = Inr (Date 2023 1 2)" by (simp add: date_eval)
  show ?thesis
    by (simp add: RecurringEvent_def check_consistency_def or_none_def truthy_def
        get_next_date_def get_weekday_period_def get_next_weekday_def a b c date_less_def)
qed

text \<open>
  C1, amended: for every rule that the constructor accepts, with a positive interval and
  a weekday that is not negative when it is given, and every reference date \<open>d\<close>: a date
  that \<^verbatim>\<open>get_next_date\<close> produces is strictly after \<open>d\<close>, in every branch (daily, workdaily,
  weekly by weekday, monthly ordinal weekday, monthly ordinal workday, monthly day of
  month).
\<close>

theorem get_next_date_strictly_later:
  assumes "RecurringEvent lo recurs interval day ordinal weekday fo = Inr self"
    and "1 \<le> interval" and "\<forall>w. weekday = Some w \<longrightarrow> 0 \<le> w"
    and "valid_date d" and "get_next_date self d = Inr (Some d')"
  shows "date_less d d'"
proof -
  note f = RecurringEvent_fields [OF assms(1)]
  have i: "1 \<le> self_interval self" using assms(2) by (simp add: f)
  have w: "\<forall>w. self_weekday self = Some w \<longrightarrow> 0 \<le> w"
    using assms(3) by (auto simp: f or_none_def split: if_splits)
  have o: "\<forall>v. self_ordinal self = Some v \<longrightarrow> 1 \<le> v"
  proof (intro allI impI)
    fix v assume v: "self_ordinal self = Some v"
    then have ov: "or_none ordinal = Some v" by (simp add: f)
    then have t: "truthy (or_none ordinal)"
      by (auto simp: or_none_def split: if_splits)
    from f(7) [unfolded check_consistency_Inr_iff] t ov show "1 \<le> v" by auto
  qed
  from get_next_date_later [OF i w o assms(4,5)]
  have "valid_date d'" "toordinal d < toordinal d'" by simp_all
  then show ?thesis by (simp add: toordinal_less_iff [OF assms(4)])
qed

theorem get_next_date_strictly_later_witness:
  "RecurringEvent (PyDate (Date 2023 1 7)) 3 4 None None (Some 6) PyNone =
     Inr \<lparr>self_last_occurence = Date 2023 1 7, self_recurs = 3, self_interval = 4,
          self_day = None, self_ordinal = None, self_weekday = Some 6,
          self_interval_end = None\<rparr> \<and>
   get_next_date \<lparr>self_last_occurence = Date 2023 1 7, self_recurs = 3, self_interval = 4,
          self_day = None, self_ordinal = None, self_weekday = Some 6,
          self_interval_end = None\<rparr> (Date 2023 1 7) = Inr (Some (Date 2023 2 4)) \<and>
   date_less (Date 2023 1 7) (Date 2023 2 4)"
proof -
  let ?r = "\<lparr>self_last_occurence = Date 2023 1 7, self_recurs = 3, self_interval = 4,
          self_day = None, self_ordinal = None, self_weekday = Some 6,
          self_interval_end = None\<rparr>"
  have k: "RecurringEvent (PyDate (Date 2023 1 7)) 3 4 None None (Some 6) PyNone = Inr ?r"
    by (simp add: RecurringEvent_def check_consistency_def or_none_def truthy_def)
  have a: "date_add (Date 2023 1 7) 28 = Inr (Date 2023 2 4)" by (simp add: date_eval)
  have b: "date_weekday (Date 2023 2 4) = 5" by (simp add: date_eval)
  have c: "date_add (Date 2023 2 4) 0 = Inr (Date 2023 2 4)" by (simp add: date_eval)
  have g: "get_next_date ?r (Date 2023 1 7) = Inr (Some (Date 2023 2 4))"
    by (simp add: get_next_date_def get_weekday_period_def get_next_weekday_def truthy_def a b c)
  have v: "valid_date (Date 2023 1 7)" by (simp add: date_eval)
  have i: "(1::int) \<le> 4" by simp
  have w: "\<forall>w. Some (6::int) = Some w \<longrightarrow> 0 \<le> w" by simp
  from get_next_date_strictly_later [OF k i w v g] k g show ?thesis by simp
qed

section \<open>The enumeration ends\<close>

text \<open>
  Dates end at 9999-12-31, so a chain of strictly later dates is finite: for a rule that
  the constructor accepts, with a positive interval and no negative weekday, in any
  state of its cursor and horizon, \<^verbatim>\<open>get_events\<close> with a horizon returns, with a list or
  with the exception that a step raised.
\<close>

lemma get_events_loop_returns_something:
  assumes "1 \<le> self_interval self" "\<forall>w. self_weekday self = Some w \<longrightarrow> 0 \<le> w"
    and "\<forall>v. self_ordinal self = Some v \<longrightarrow> 1 \<le> v" "valid_date obs"
  shows "\<exists>y. get_events_loop self obs periods = Some y"
  using assms
proof (induction "nat (MAXORDINAL - toordinal obs)" arbitrary: self obs periods rule: less_induct)
  case less
  show ?case
  proof (cases "get_next_date self obs")
    case (Inl e)
    then show ?thesis by (subst get_events_loop.simps) simp
  next
    case (Inr r)
    show ?thesis
    proof (cases r)
      case None
      with Inr show ?thesis by (subst get_events_loop.simps) simp
    next
      case (Some d')
      note g = Inr [unfolded Some]
      note l = get_next_date_later [OF less.prems(1,2,3,4) g]
      show ?thesis
      proof (cases "self_interval_end self")
        case None
        with g show ?thesis by (subst get_events_loop.simps) simp
      next
        case h: (Some h)
        show ?thesis
        proof (cases "date_less h d'")
          case True
          with g h show ?thesis by (subst get_events_loop.simps) simp
        next
          case False
          let ?self = "self\<lparr>self_last_occurence := d'\<rparr>"
          have m: "nat (MAXORDINAL - toordinal d') < nat (MAXORDINAL - toordinal obs)"
            using l toordinal_range(2) [of d'] by simp
          have p1: "1 \<le> self_interval ?self" using less.prems(1) by simp
          have p2: "\<forall>w. self_weekday ?self = Some w \<longrightarrow> 0 \<le> w" using less.prems(2) by simp
          have p3: "\<forall>v. self_ordinal ?self = Some v \<longrightarrow> 1 \<le> v" using less.prems(3) by simp
          have p4: "valid_date d'" using l by simp
          from less.hyps [OF m p1 p2 p3 p4]
          obtain y where "get_events_loop ?self d' (periods @ [d']) = Some y" by blast
          moreover have "get_events_loop self obs periods =
              get_events_loop ?self d' (periods @ [d'])"
            by (subst get_events_loop.simps) (simp add: g h False)
          ultimately show ?thesis by simp
        qed
      qed
    qed
  qed
qed

lemma get_events_returns_something:
  assumes "RecurringEvent lo recurs interval day ordinal weekday fo = Inr self0"
    and "self_recurs self = self_recurs self0" "self_interval self = self_interval self0"
    and "self_day self = self_day self0" "self_ordinal self = self_ordinal self0"
    and "self_weekday self = self_weekday self0"
    and "1 \<le> interval" "\<forall>w. weekday = Some w \<longrightarrow> 0 \<le> w"
    and "valid_date (self_last_occurence self)"
  shows "\<exists>y. get_events self (Some h) = Some y"
proof -
  note f = RecurringEvent_fields [OF assms(1)]
  let ?s = "self\<lparr>self_interval_end := Some h\<rparr>"
  have i: "1 \<le> self_interval ?s" using assms(7) by (simp add: f assms(3))
  have w: "\<forall>w. self_weekday ?s = Some w \<longrightarrow> 0 \<le> w"
    using assms(8) by (auto simp: f assms(6) or_none_def split: if_splits)
  have o: "\<forall>v. self_ordinal ?s = Some v \<longrightarrow> 1 \<le> v"
  proof (intro allI impI)
    fix v assume "self_ordinal ?s = Some v"
    then have ov: "or_none ordinal = Some v" by (simp add: f assms(5))
    then have t: "truthy (or_none ordinal)"
      by (auto simp: or_none_def split: if_splits)
    from f(7) [unfolded check_consistency_Inr_iff] t ov show "1 \<le> v" by auto
  qed
  have v: "valid_date (self_last_occurence ?s)" using assms(9) by simp
  from get_events_loop_returns_something [OF i w o v, of "[]"]
  show ?thesis by (simp add: get_events_def set_interval_end_def)
qed

end
